theory Spec2Isabelle
  imports Main
begin

section \<open>The text buffer the undo engine works on\<close>

text \<open>
  The undo engine of \<^verbatim>\<open>wpundo.c\<close> records and replays mutations of a GtkTextBuffer.
  The buffer is a library object; it is modelled here by what its documented interface
  lets the engine observe: a sequence of characters, each carrying the tags applied to it,
  the two selection marks, the bullet tag of the owning WPTextBuffer and the tag table.

  A C string handed to the engine is valid UTF-8; it is modelled as the list of its code
  points. A \<^verbatim>\<open>GtkTextTag *\<close> is modelled as the index of the tag in the tag table, which
  is also its priority. Offsets (\<^verbatim>\<open>gint\<close>) are integers; an iterator is the offset of a
  position inside the buffer, a natural number not beyond the character count.
\<close>

type_synonym gunichar = nat
type_synonym utf8 = "gunichar list"
type_synonym GtkTextTag = nat
type_synonym GtkTextIter = nat

record GtkTextTagInfo =
  tag_name :: "string option"
  image_index :: "string option"

record GtkTextBuffer =
  contents :: "(gunichar \<times> GtkTextTag list) list"
  insert_mark :: nat
  selection_bound :: nat
  bullet_tag :: GtkTextTag
  tag_table :: "GtkTextTagInfo list"

definition get_char_count :: "GtkTextBuffer \<Rightarrow> nat" where
  "get_char_count b = length (contents b)"

definition get_text :: "GtkTextBuffer \<Rightarrow> utf8" where
  "get_text b = map fst (contents b)"

text \<open>
  \<^verbatim>\<open>gtk_text_buffer_get_iter_at_offset\<close>: an offset that is negative or beyond the
  character count gives the end iterator.
\<close>

definition get_iter_at_offset :: "GtkTextBuffer \<Rightarrow> int \<Rightarrow> GtkTextIter" where
  "get_iter_at_offset b off =
     (if off < 0 \<or> off > int (get_char_count b) then get_char_count b else nat off)"

definition iter_get_tags :: "GtkTextBuffer \<Rightarrow> GtkTextIter \<Rightarrow> GtkTextTag list" where
  "iter_get_tags b p = (if p < get_char_count b then snd (contents b ! p) else [])"

definition tags_before :: "GtkTextBuffer \<Rightarrow> GtkTextIter \<Rightarrow> GtkTextTag list" where
  "tags_before b p = (if p = 0 then [] else iter_get_tags b (p - 1))"

text \<open>
  \<^verbatim>\<open>gtk_text_iter_get_toggled_tags (iter, toggled_on)\<close>: the tags that start
  (\<open>toggled_on\<close>) or stop to apply at the iterator.
\<close>

definition iter_get_toggled_tags :: "GtkTextBuffer \<Rightarrow> GtkTextIter \<Rightarrow> bool \<Rightarrow> GtkTextTag list" where
  "iter_get_toggled_tags b p toggled_on =
     (if toggled_on
      then filter (\<lambda>t. t \<notin> set (tags_before b p)) (iter_get_tags b p)
      else filter (\<lambda>t. t \<notin> set (iter_get_tags b p)) (tags_before b p))"

text \<open>\<^verbatim>\<open>gtk_text_iter_toggles_tag (iter, tag)\<close>; \<open>None\<close> is the NULL tag: any tag.\<close>

definition iter_toggles_tag :: "GtkTextBuffer \<Rightarrow> GtkTextIter \<Rightarrow> GtkTextTag option \<Rightarrow> bool" where
  "iter_toggles_tag b p tg =
     (case tg of
        None \<Rightarrow> iter_get_toggled_tags b p True \<noteq> [] \<or> iter_get_toggled_tags b p False \<noteq> []
      | Some t \<Rightarrow> t \<in> set (iter_get_toggled_tags b p True) \<or>
                  t \<in> set (iter_get_toggled_tags b p False))"

text \<open>
  \<^verbatim>\<open>gtk_text_iter_forward_to_tag_toggle\<close>: moves to the next toggle strictly after the
  iterator (the end of the buffer included) and returns TRUE, or moves to the end of the
  buffer and returns FALSE. The search runs over the positions \<open>p + 1, ..., count\<close>.
\<close>

fun find_toggle :: "GtkTextBuffer \<Rightarrow> GtkTextTag option \<Rightarrow> GtkTextIter list \<Rightarrow> GtkTextIter option" where
  "find_toggle b tg [] = None"
| "find_toggle b tg (q # qs) = (if iter_toggles_tag b q tg then Some q else find_toggle b tg qs)"

definition iter_forward_to_tag_toggle ::
  "GtkTextBuffer \<Rightarrow> GtkTextIter \<Rightarrow> GtkTextTag option \<Rightarrow> bool \<times> GtkTextIter" where
  "iter_forward_to_tag_toggle b p tg =
     (case find_toggle b tg (map Suc [p ..< get_char_count b]) of
        Some q \<Rightarrow> (True, q)
      | None \<Rightarrow> (False, get_char_count b))"

text \<open>
  \<^verbatim>\<open>gtk_text_iter_ends_line\<close>: the iterator is at a paragraph delimiter (line feed,
  carriage return, U+2029) or at the end of the buffer.
\<close>

definition iter_ends_line :: "GtkTextBuffer \<Rightarrow> GtkTextIter \<Rightarrow> bool" where
  "iter_ends_line b p =
     (if p < get_char_count b then fst (contents b ! p) \<in> set [10, 13, 8233] else True)"

text \<open>
  \<^verbatim>\<open>gtk_text_buffer_get_slice\<close> with hidden characters included; the two iterators
  are put in order first. An embedded pixbuf or child widget reads as U+FFFC.
\<close>

definition get_slice :: "GtkTextBuffer \<Rightarrow> GtkTextIter \<Rightarrow> GtkTextIter \<Rightarrow> utf8" where
  "get_slice b s e = map fst (take (max s e - min s e) (drop (min s e) (contents b)))"

text \<open>
  Marks have right gravity: text inserted at a mark leaves the mark behind the text;
  a mark inside a deleted range moves to the start of the range.
\<close>

definition mark_after_insert :: "nat \<Rightarrow> nat \<Rightarrow> nat \<Rightarrow> nat" where
  "mark_after_insert p n m = (if p \<le> m then m + n else m)"

definition mark_after_delete :: "nat \<Rightarrow> nat \<Rightarrow> nat \<Rightarrow> nat" where
  "mark_after_delete s e m = (if e \<le> m then m - (e - s) else if s < m then s else m)"

text \<open>
  \<^verbatim>\<open>gtk_text_buffer_insert\<close>: the new characters carry the tags that apply on both
  sides of the insertion point (a toggle at the insertion point stays outside the new
  text). The iterator passed in is revalidated to the end of the inserted text, which is
  the second component of the result.
\<close>

definition buffer_insert :: "GtkTextBuffer \<Rightarrow> GtkTextIter \<Rightarrow> utf8 \<Rightarrow> GtkTextBuffer \<times> GtkTextIter" where
  "buffer_insert b p txt =
     (let q = min p (get_char_count b);
          inherited = filter (\<lambda>t. t \<in> set (tags_before b q)) (iter_get_tags b q)
      in (b\<lparr>contents := take q (contents b) @ map (\<lambda>c. (c, inherited)) txt @ drop q (contents b),
            insert_mark := mark_after_insert q (length txt) (insert_mark b),
            selection_bound := mark_after_insert q (length txt) (selection_bound b)\<rparr>,
          q + length txt))"

definition buffer_delete :: "GtkTextBuffer \<Rightarrow> GtkTextIter \<Rightarrow> GtkTextIter \<Rightarrow> GtkTextBuffer" where
  "buffer_delete b s e =
     (let lo = min (min s e) (get_char_count b); hi = min (max s e) (get_char_count b)
      in b\<lparr>contents := take lo (contents b) @ drop hi (contents b),
           insert_mark := mark_after_delete lo hi (insert_mark b),
           selection_bound := mark_after_delete lo hi (selection_bound b)\<rparr>)"

definition map_range :: "('a \<Rightarrow> 'a) \<Rightarrow> nat \<Rightarrow> nat \<Rightarrow> 'a list \<Rightarrow> 'a list" where
  "map_range f lo hi xs = take lo xs @ map f (take (hi - lo) (drop lo xs)) @ drop hi xs"

definition buffer_apply_tag :: "GtkTextBuffer \<Rightarrow> GtkTextTag \<Rightarrow> GtkTextIter \<Rightarrow> GtkTextIter \<Rightarrow> GtkTextBuffer" where
  "buffer_apply_tag b t s e =
     b\<lparr>contents := map_range (\<lambda>(c, ts). (c, if t \<in> set ts then ts else insort t ts))
                     (min s e) (max s e) (contents b)\<rparr>"

definition buffer_remove_tag :: "GtkTextBuffer \<Rightarrow> GtkTextTag \<Rightarrow> GtkTextIter \<Rightarrow> GtkTextIter \<Rightarrow> GtkTextBuffer" where
  "buffer_remove_tag b t s e =
     b\<lparr>contents := map_range (\<lambda>(c, ts). (c, removeAll t ts)) (min s e) (max s e) (contents b)\<rparr>"

definition buffer_remove_all_tags :: "GtkTextBuffer \<Rightarrow> GtkTextIter \<Rightarrow> GtkTextIter \<Rightarrow> GtkTextBuffer" where
  "buffer_remove_all_tags b s e =
     b\<lparr>contents := map_range (\<lambda>(c, ts). (c, [])) (min s e) (max s e) (contents b)\<rparr>"

definition buffer_select_range :: "GtkTextBuffer \<Rightarrow> GtkTextIter \<Rightarrow> GtkTextIter \<Rightarrow> GtkTextBuffer" where
  "buffer_select_range b ins bound = b\<lparr>insert_mark := ins, selection_bound := bound\<rparr>"

definition buffer_place_cursor :: "GtkTextBuffer \<Rightarrow> GtkTextIter \<Rightarrow> GtkTextBuffer" where
  "buffer_place_cursor b p = buffer_select_range b p p"

definition get_selection_bounds :: "GtkTextBuffer \<Rightarrow> GtkTextIter \<times> GtkTextIter" where
  "get_selection_bounds b =
     (min (insert_mark b) (selection_bound b), max (insert_mark b) (selection_bound b))"

text \<open>GLib's \<^verbatim>\<open>g_utf8_get_char\<close>, \<^verbatim>\<open>g_utf8_strlen\<close>, \<^verbatim>\<open>strlen\<close> and \<^verbatim>\<open>g_unichar_isspace\<close>.\<close>

definition g_utf8_get_char :: "utf8 \<Rightarrow> gunichar" where
  "g_utf8_get_char txt = (case txt of [] \<Rightarrow> 0 | c # _ \<Rightarrow> c)"

definition g_utf8_strlen :: "utf8 \<Rightarrow> nat" where
  "g_utf8_strlen txt = length txt"

definition utf8_width :: "gunichar \<Rightarrow> nat" where
  "utf8_width c =
     (if c < 128 then 1 else if c < 2048 then 2 else if c < 65536 then 3
      else if c < 2097152 then 4 else if c < 67108864 then 5 else 6)"

definition strlen :: "utf8 \<Rightarrow> int" where
  "strlen txt = int (sum_list (map utf8_width txt))"

definition g_unichar_isspace :: "gunichar \<Rightarrow> bool" where
  "g_unichar_isspace c =
     (c \<in> set [9, 10, 12, 13] \<or>
      c \<in> set [32, 160, 5760, 8232, 8233, 8239, 8287, 12288] \<or>
      (8192 \<le> c \<and> c \<le> 8202))"

section \<open>The data of the undo engine\<close>

datatype WPUndoType =
    WP_UNDO_INSERT
  | WP_UNDO_DELETE
  | WP_UNDO_TAG
  | WP_UNDO_SIMPLE_JUSTIFY
  | WP_UNDO_SELECT
  | WP_UNDO_FMT
  | WP_UNDO_LAST_LINE_JUSTIFY

record WPUndoTag =
  tag_apply :: bool
  tag_start :: int
  tag_end :: int
  tag_tag :: GtkTextTag

record WPUndoOperation =
  op_type :: WPUndoType
  op_start :: int
  op_end :: int
  op_text :: "utf8 option"
  orig_tag :: "GtkTextTag option"
  op_tag :: "GtkTextTag option"
  orig_tags :: "WPUndoTag list"
  op_tags :: "WPUndoTag list"
  sel_start :: int
  sel_end :: int
  old_line_justify :: int
  new_line_justify :: int
  mergeable :: bool
  backspace :: bool
  rich_text :: bool

text \<open>The zero-filled operation of \<^verbatim>\<open>g_new0\<close> and of \<^verbatim>\<open>WPUndoOperation co = { 0 }\<close>.\<close>

definition op_zero :: WPUndoOperation where
  "op_zero =
     \<lparr>op_type = WP_UNDO_INSERT, op_start = 0, op_end = 0, op_text = None, orig_tag = None,
      op_tag = None, orig_tags = [], op_tags = [], sel_start = 0, sel_end = 0,
      old_line_justify = 0, new_line_justify = 0, mergeable = False, backspace = False,
      rich_text = False\<rparr>"

datatype WPUndoSignal =
    CAN_UNDO bool
  | CAN_REDO bool
  | FMT_CHANGED bool
  | LAST_LINE_JUSTIFY int
  | NO_MEMORY

text \<open>
  A queue is a list of groups, the most recent group first; a group is the list of its
  operations, the most recently recorded first (both are built with
  \<^verbatim>\<open>g_slist_prepend\<close>).

  \<^verbatim>\<open>current_op\<close> and \<^verbatim>\<open>current_op_list\<close> are set and cleared together; when set they
  point at the first operation and at the operation list of the group at the head of the
  undo queue. The pointer is modelled by where it points: nowhere, at the head of the
  undo queue, at the head of the redo queue (inside \<^verbatim>\<open>wp_undo_undo\<close>, after the group
  was moved), or at memory that was freed while the pointer was kept.
\<close>

datatype OpPtr = NULL | UndoHead | RedoHead | Freed

datatype error = NullDeref | UseAfterFree | Diverges | Aborted

text \<open>
  The one-bit fields of the C struct are booleans here. The \<open>emitted\<close> field is not part
  of the C struct: it logs the signals emitted so far, oldest first.
\<close>

record WPUndo =
  undo_queue :: "WPUndoOperation list list"
  redo_queue :: "WPUndoOperation list list"
  hash :: "(GtkTextTag \<times> int) list"
  current_op :: OpPtr
  last_char_is_space :: bool
  first_in_group :: bool
  group :: int
  undo_disabled :: int
  max_undo_level :: int
  undo_queue_len :: int
  undo_sent :: bool
  redo_sent :: bool
  low_mem :: bool
  disable_this_group :: bool
  text_buffer :: GtkTextBuffer
  emitted :: "WPUndoSignal list"

definition MIN_UNDO_LEVEL :: int where "MIN_UNDO_LEVEL = 5"
definition MAX_UNDO_LEVEL :: int where "MAX_UNDO_LEVEL = 200"
definition DEF_UNDO_LEVEL :: int where "DEF_UNDO_LEVEL = 5"

text \<open>\<^verbatim>\<open>wp_undo_new\<close> with \<^verbatim>\<open>wp_undo_init\<close>: everything zero but the undo level.\<close>

definition wp_undo_new :: "GtkTextBuffer \<Rightarrow> WPUndo" where
  "wp_undo_new buffer =
     \<lparr>undo_queue = [], redo_queue = [], hash = [], current_op = NULL,
      last_char_is_space = False, first_in_group = False, group = 0, undo_disabled = 0,
      max_undo_level = DEF_UNDO_LEVEL, undo_queue_len = 0, undo_sent = False,
      redo_sent = False, low_mem = False, disable_this_group = False,
      text_buffer = buffer, emitted = []\<rparr>"

definition wp_undo_freeze :: "WPUndo \<Rightarrow> WPUndo" where
  "wp_undo_freeze u = u\<lparr>undo_disabled := undo_disabled u + 1\<rparr>"

definition wp_undo_thaw :: "WPUndo \<Rightarrow> WPUndo" where
  "wp_undo_thaw u = u\<lparr>undo_disabled := undo_disabled u - 1\<rparr>"

definition wp_undo_is_enabled :: "WPUndo \<Rightarrow> bool" where
  "wp_undo_is_enabled u = (undo_disabled u = 0 \<and> \<not> low_mem u)"

definition wp_undo_start_group :: "WPUndo \<Rightarrow> WPUndo" where
  "wp_undo_start_group u =
     (let u1 = u\<lparr>group := group u + 1\<rparr>
      in if group u1 = 1 then u1\<lparr>first_in_group := True, disable_this_group := False\<rparr> else u1)"

definition wp_undo_end_group :: "WPUndo \<Rightarrow> WPUndo" where
  "wp_undo_end_group u =
     (let u1 = u\<lparr>group := group u - 1\<rparr>
      in if group u1 = 0 then u1\<lparr>disable_this_group := False\<rparr> else u1)"

text \<open>
  \<^verbatim>\<open>undo_sent\<close> and \<^verbatim>\<open>redo_sent\<close> are declared \<^verbatim>\<open>gint undo_sent:1\<close>: signed fields of
  one bit, in which a stored TRUE reads back as \<open>-1\<close>. The result of
  \<^verbatim>\<open>queue != NULL\<close> is 0 or 1, so the test \<^verbatim>\<open>sent != (queue != NULL)\<close> is false
  only when the field is clear and the queue is empty: while a queue is not empty its
  signal is emitted again by every call. The model keeps a field as the boolean "the
  field is not zero".
\<close>

definition bit_field_differs :: "bool \<Rightarrow> bool \<Rightarrow> bool" where
  "bit_field_differs field v = ((if field then - 1 else 0) \<noteq> (if v then 1 else (0::int)))"

definition wp_undo_send_signals :: "WPUndo \<Rightarrow> WPUndo" where
  "wp_undo_send_signals u =
     (let enable = \<not> low_mem u;
          u1 = (if bit_field_differs (redo_sent u) (redo_queue u \<noteq> []) \<and> enable
                then u\<lparr>redo_sent := (redo_queue u \<noteq> [] \<and> enable),
                       emitted := emitted u @ [CAN_REDO (redo_queue u \<noteq> [] \<and> enable)]\<rparr>
                else u)
      in if bit_field_differs (undo_sent u1) (undo_queue u1 \<noteq> []) \<and> enable
         then u1\<lparr>undo_sent := (undo_queue u1 \<noteq> [] \<and> enable),
                 emitted := emitted u1 @ [CAN_UNDO (undo_queue u1 \<noteq> [] \<and> enable)]\<rparr>
         else u1)"

definition wp_undo_can_undo :: "WPUndo \<Rightarrow> bool" where
  "wp_undo_can_undo u = (undo_queue u \<noteq> [] \<and> \<not> low_mem u)"

definition wp_undo_can_redo :: "WPUndo \<Rightarrow> bool" where
  "wp_undo_can_redo u = (redo_queue u \<noteq> [] \<and> \<not> low_mem u)"

text \<open>Reading and writing the operation that \<^verbatim>\<open>current_op\<close> points at.\<close>

definition deref_current :: "WPUndo \<Rightarrow> error + WPUndoOperation" where
  "deref_current u =
     (case current_op u of
        NULL \<Rightarrow> Inl NullDeref
      | Freed \<Rightarrow> Inl UseAfterFree
      | UndoHead \<Rightarrow> (case undo_queue u of (x # xs) # q \<Rightarrow> Inr x | _ \<Rightarrow> Inl UseAfterFree)
      | RedoHead \<Rightarrow> (case redo_queue u of (x # xs) # q \<Rightarrow> Inr x | _ \<Rightarrow> Inl UseAfterFree))"

definition store_current :: "WPUndo \<Rightarrow> WPUndoOperation \<Rightarrow> WPUndo" where
  "store_current u x =
     (case current_op u of
        UndoHead \<Rightarrow> (case undo_queue u of (y # ys) # q \<Rightarrow> u\<lparr>undo_queue := (x # ys) # q\<rparr> | _ \<Rightarrow> u)
      | RedoHead \<Rightarrow> (case redo_queue u of (y # ys) # q \<Rightarrow> u\<lparr>redo_queue := (x # ys) # q\<rparr> | _ \<Rightarrow> u)
      | _ \<Rightarrow> u)"

definition wp_undo_reset_mergeable :: "WPUndo \<Rightarrow> error + WPUndo" where
  "wp_undo_reset_mergeable u =
     (if current_op u \<noteq> NULL
      then (case deref_current u of
              Inl e \<Rightarrow> Inl e
            | Inr x \<Rightarrow> Inr ((store_current u (x\<lparr>mergeable := False\<rparr>))\<lparr>current_op := NULL\<rparr>))
      else Inr u)"

section \<open>Recording operations\<close>

text \<open>
  \<^verbatim>\<open>wp_undo_free_op_list\<close> frees groups. In the model a freed group just disappears
  from its queue; what has to be tracked is \<^verbatim>\<open>current_op\<close>, which the C code leaves
  untouched: when the group it points into is freed, the pointer dangles.
\<close>

definition undo_head_freed :: "WPUndo \<Rightarrow> WPUndo" where
  "undo_head_freed u = (if current_op u = UndoHead then u\<lparr>current_op := Freed\<rparr> else u)"

definition redo_head_freed :: "WPUndo \<Rightarrow> WPUndo" where
  "redo_head_freed u = (if current_op u = RedoHead then u\<lparr>current_op := Freed\<rparr> else u)"

text \<open>
  \<^verbatim>\<open>tmp = g_slist_nth (queue, n); tmp->next = wp_undo_free_op_list (tmp->next);\<close>
  The index is a \<^verbatim>\<open>guint\<close>: a negative \<open>n\<close> is beyond every list.
  \<^verbatim>\<open>g_slist_nth\<close> returns NULL beyond the end of the list.
\<close>

definition g_slist_nth_exists :: "'a list \<Rightarrow> int \<Rightarrow> bool" where
  "g_slist_nth_exists q n = (0 \<le> n \<and> nat n < length q)"

definition truncate_after :: "'a list \<Rightarrow> int \<Rightarrow> error + 'a list" where
  "truncate_after q n =
     (if g_slist_nth_exists q n then Inr (take (Suc (nat n)) q) else Inl NullDeref)"

primrec remove_image_chars :: "utf8 \<Rightarrow> utf8" where
  "remove_image_chars [] = []"
| "remove_image_chars (c # cs) = (if c = 65532 then 32 else c) # remove_image_chars cs"

definition remove_image_tags :: "utf8 option \<Rightarrow> utf8 option" where
  "remove_image_tags string =
     (case string of None \<Rightarrow> None | Some txt \<Rightarrow> Some (remove_image_chars txt))"

definition emit_no_memory :: "WPUndo \<Rightarrow> WPUndo" where
  "emit_no_memory u =
     (let u1 = u\<lparr>emitted := emitted u @ [NO_MEMORY]\<rparr>;
          u2 = (if \<not> first_in_group u1 \<and> \<not> disable_this_group u1 \<and> undo_queue u1 \<noteq> []
                then wp_undo_send_signals ((undo_head_freed u1)\<lparr>undo_queue := tl (undo_queue u1)\<rparr>)
                else u1)
      in u2\<lparr>disable_this_group := True\<rparr>)"

text \<open>
  \<^verbatim>\<open>wp_undo_add_queue\<close>. The operation is prepended to \<^verbatim>\<open>current_op_list\<close>; the list
  becomes a new group at the head of the undo queue when \<^verbatim>\<open>current_op\<close> is NULL and
  replaces the head group otherwise.
\<close>

definition link_current_op :: "WPUndo \<Rightarrow> WPUndoOperation \<Rightarrow> error + WPUndo" where
  "link_current_op u x =
     (case current_op u of
        NULL \<Rightarrow> Inr (u\<lparr>undo_queue := [x] # undo_queue u, current_op := UndoHead\<rparr>)
      | UndoHead \<Rightarrow>
          (case undo_queue u of
             [] \<Rightarrow> Inl NullDeref
           | g # q \<Rightarrow> Inr (u\<lparr>undo_queue := (x # g) # q, current_op := UndoHead\<rparr>))
      | RedoHead \<Rightarrow> Inl UseAfterFree
      | Freed \<Rightarrow> Inl UseAfterFree)"

definition evict_oldest :: "bool \<Rightarrow> WPUndo \<Rightarrow> WPUndo" where
  "evict_oldest first u =
     (if first
      then (let u1 = u\<lparr>undo_queue_len := undo_queue_len u + 1\<rparr>
            in if undo_queue_len u1 > max_undo_level u1
               then (let u2 = u1\<lparr>undo_queue_len := max_undo_level u1\<rparr>
                     in if g_slist_nth_exists (undo_queue u2) (undo_queue_len u2 - 1)
                        then u2\<lparr>undo_queue := take (Suc (nat (undo_queue_len u2 - 1))) (undo_queue u2)\<rparr>
                        else u2)
               else u1)
      else u)"

definition wp_undo_add_queue :: "WPUndo \<Rightarrow> WPUndoOperation \<Rightarrow> error + WPUndo" where
  "wp_undo_add_queue u x0 =
     (let first = first_in_group u;
          x = x0\<lparr>op_text := remove_image_tags (op_text x0)\<rparr>
      in if disable_this_group u then Inr u
         else case (if group u = 0 \<or> first_in_group u
                    then wp_undo_reset_mergeable (u\<lparr>first_in_group := False\<rparr>)
                    else Inr u) of
                Inl e \<Rightarrow> Inl e
              | Inr u1 \<Rightarrow>
                 (case link_current_op u1 x of
                    Inl e \<Rightarrow> Inl e
                  | Inr u2 \<Rightarrow>
                     Inr (wp_undo_send_signals (evict_oldest first (u2\<lparr>redo_queue := []\<rparr>)))))"

definition wp_undo_reset :: "WPUndo \<Rightarrow> error + WPUndo" where
  "wp_undo_reset u =
     (case wp_undo_reset_mergeable u of
        Inl e \<Rightarrow> Inl e
      | Inr u1 \<Rightarrow> Inr (wp_undo_send_signals (u1\<lparr>undo_queue := [], redo_queue := []\<rparr>)))"

subsection \<open>The sweep over the tag toggles of a range\<close>

text \<open>
  The GHashTable maps a tag to the offset where it was opened, plus one (zero is "not
  found"). It is an association list here; \<^verbatim>\<open>g_hash_table_foreach_remove\<close> visits the
  entries in an order GLib does not specify, the model visits them in list order.
\<close>

fun hash_insert :: "(GtkTextTag \<times> int) list \<Rightarrow> GtkTextTag \<Rightarrow> int \<Rightarrow> (GtkTextTag \<times> int) list" where
  "hash_insert [] k v = [(k, v)]"
| "hash_insert ((k', v') # h) k v = (if k' = k then (k, v) # h else (k', v') # hash_insert h k v)"

definition hash_lookup :: "(GtkTextTag \<times> int) list \<Rightarrow> GtkTextTag \<Rightarrow> int" where
  "hash_lookup h k = (case map_of h k of None \<Rightarrow> 0 | Some v \<Rightarrow> v)"

definition hash_remove :: "(GtkTextTag \<times> int) list \<Rightarrow> GtkTextTag \<Rightarrow> (GtkTextTag \<times> int) list" where
  "hash_remove h k = filter (\<lambda>kv. fst kv \<noteq> k) h"

definition wp_undo_create_tag :: "int \<Rightarrow> GtkTextIter \<Rightarrow> GtkTextTag \<Rightarrow> bool \<Rightarrow> WPUndoTag" where
  "wp_undo_create_tag start end_iter tg enable =
     \<lparr>tag_apply = enable, tag_start = start, tag_end = int end_iter, tag_tag = tg\<rparr>"

type_synonym sweep_acc = "(GtkTextTag \<times> int) list \<times> WPUndoTag list"

fun open_tags :: "GtkTextIter \<Rightarrow> GtkTextTag list \<Rightarrow> (GtkTextTag \<times> int) list \<Rightarrow> (GtkTextTag \<times> int) list" where
  "open_tags tmp [] h = h"
| "open_tags tmp (t # ts) h = open_tags tmp ts (hash_insert h t (int tmp + 1))"

fun close_tags :: "GtkTextIter \<Rightarrow> GtkTextTag list \<Rightarrow> sweep_acc \<Rightarrow> sweep_acc" where
  "close_tags tmp [] acc = acc"
| "close_tags tmp (t # ts) (h, tags) =
     (let tmp_start = hash_lookup h t
      in if tmp_start \<noteq> 0
         then close_tags tmp ts (hash_remove h t, wp_undo_create_tag (tmp_start - 1) tmp t True # tags)
         else close_tags tmp ts (h, tags))"

lemma find_toggle_in: "find_toggle b tg qs = Some q \<Longrightarrow> q \<in> set qs"
  by (induction qs) (auto split: if_splits)

lemma forward_to_tag_toggle_range:
  "iter_forward_to_tag_toggle b p tg = (True, q) \<Longrightarrow> p < q \<and> q \<le> get_char_count b"
proof -
  assume "iter_forward_to_tag_toggle b p tg = (True, q)"
  then have "find_toggle b tg (map Suc [p ..< get_char_count b]) = Some q"
    unfolding iter_forward_to_tag_toggle_def by (simp split: option.splits)
  then have "q \<in> set (map Suc [p ..< get_char_count b])"
    by (rule find_toggle_in)
  then show ?thesis
    by auto
qed

function sweep_loop :: "GtkTextBuffer \<Rightarrow> GtkTextIter \<Rightarrow> sweep_acc \<Rightarrow> GtkTextIter \<Rightarrow> sweep_acc" where
  "sweep_loop b end_iter acc tmp =
     (case iter_forward_to_tag_toggle b tmp None of
        (False, q) \<Rightarrow> acc
      | (True, q) \<Rightarrow>
          if q \<ge> end_iter then acc
          else (case close_tags q (iter_get_toggled_tags b q False) acc of
                  (h1, tags1) \<Rightarrow>
                    sweep_loop b end_iter (open_tags q (iter_get_toggled_tags b q True) h1, tags1) q))"
  by pat_completeness auto
termination
  by (relation "measure (\<lambda>(b, e, acc, tmp). Suc (get_char_count b) - tmp)")
     (auto dest!: forward_to_tag_toggle_range [OF sym])

fun wp_undo_close_opened_tags :: "GtkTextIter \<Rightarrow> (GtkTextTag \<times> int) list \<Rightarrow> WPUndoTag list \<Rightarrow> WPUndoTag list" where
  "wp_undo_close_opened_tags end_iter [] tags = tags"
| "wp_undo_close_opened_tags end_iter ((key, val) # h) tags =
     wp_undo_close_opened_tags end_iter h (wp_undo_create_tag (val - 1) end_iter key True # tags)"

definition wp_undo_get_toggled_tags :: "WPUndo \<Rightarrow> GtkTextIter \<Rightarrow> GtkTextIter \<Rightarrow> WPUndo \<times> WPUndoTag list" where
  "wp_undo_get_toggled_tags u start end_iter =
     (let b = text_buffer u;
          h0 = open_tags start (iter_get_tags b start) (hash u)
      in case sweep_loop b end_iter (h0, []) start of
           (h1, tags) \<Rightarrow> (u\<lparr>hash := []\<rparr>, rev (wp_undo_close_opened_tags end_iter h1 tags)))"

definition update_tags_range :: "WPUndoTag list \<Rightarrow> int \<Rightarrow> int \<Rightarrow> WPUndoTag list" where
  "update_tags_range tags start end_off = map (\<lambda>t. t\<lparr>tag_start := start, tag_end := end_off\<rparr>) tags"

subsection \<open>The recording entry points\<close>

text \<open>
  The allocating functions of GLib and GTK that the engine calls and whose result it
  tests (\<^verbatim>\<open>g_new0\<close>, \<^verbatim>\<open>g_strdup\<close> of a string, \<^verbatim>\<open>gtk_text_buffer_get_slice\<close>) obtain
  their memory from \<^verbatim>\<open>g_malloc\<close>, which does not return when memory is exhausted: it
  ends the program. Such an allocation is a boolean argument of the model, \<open>True\<close> when
  memory is left. \<open>g_malloc\<close> gives what the caller receives: whether the pointer it
  tests is different from NULL, or the end of the program.
  \<^verbatim>\<open>g_strconcat\<close> stops at its first NULL argument.
\<close>

definition g_malloc :: "bool \<Rightarrow> error + bool" where
  "g_malloc memory_left = (if memory_left then Inr True else Inl Aborted)"

definition g_strconcat :: "utf8 option \<Rightarrow> utf8 option \<Rightarrow> utf8 option" where
  "g_strconcat a b =
     (case a of None \<Rightarrow> None
      | Some x \<Rightarrow> (case b of None \<Rightarrow> Some x | Some y \<Rightarrow> Some (x @ y)))"

definition insert_text_new ::
  "bool \<Rightarrow> bool \<Rightarrow> WPUndo \<Rightarrow> WPUndoOperation \<Rightarrow> utf8 \<Rightarrow> bool \<Rightarrow> error + WPUndo" where
  "insert_text_new op_mem dup_mem u co txt is_space =
     (case g_malloc op_mem of
        Inl e \<Rightarrow> Inl e
      | Inr op \<Rightarrow>
          if \<not> op then Inr (emit_no_memory u)
          else (case g_malloc dup_mem of
                  Inl e \<Rightarrow> Inl e
                | Inr text \<Rightarrow>
                    let u1 = u\<lparr>last_char_is_space := is_space\<rparr>
                    in if \<not> text then Inr (emit_no_memory u1)
                       else wp_undo_add_queue u1 (co\<lparr>op_type := WP_UNDO_INSERT, op_text := Some txt\<rparr>)))"

text \<open>The local \<^verbatim>\<open>co\<close> of \<^verbatim>\<open>wp_undo_insert_text\<close>, as it is when the merge is tried.\<close>

definition insert_text_co :: "GtkTextIter \<Rightarrow> utf8 \<Rightarrow> WPUndoOperation" where
  "insert_text_co pos txt =
     (let co0 = op_zero\<lparr>op_start := int pos, op_end := int pos + int (g_utf8_strlen txt)\<rparr>
      in co0\<lparr>mergeable := \<not> (op_end co0 - op_start co0 > 1 \<or> g_utf8_get_char txt = 10)\<rparr>)"

definition wp_undo_insert_text ::
  "bool \<Rightarrow> bool \<Rightarrow> WPUndo \<Rightarrow> GtkTextIter \<Rightarrow> utf8 \<Rightarrow> int \<Rightarrow> error + WPUndo" where
  "wp_undo_insert_text op_mem dup_mem u pos txt len =
     (if undo_disabled u > 0 \<or> low_mem u then Inr u
      else if strlen txt \<noteq> len then Inr u
      else
        let co = insert_text_co pos txt;
            is_space = (mergeable co \<and> g_unichar_isspace (g_utf8_get_char txt))
        in if mergeable co \<and> current_op u \<noteq> NULL
           then (case deref_current u of
                   Inl e \<Rightarrow> Inl e
                 | Inr la \<Rightarrow>
                     if mergeable la \<and> op_type la = WP_UNDO_INSERT
                     then (if op_end la = op_start co \<and> (is_space \<or> \<not> last_char_is_space u)
                           then Inr ((store_current u
                                        (la\<lparr>op_text := g_strconcat (op_text la) (Some txt),
                                            op_tags := update_tags_range (op_tags la) (op_start la) (op_end la),
                                            op_end := op_end co\<rparr>))
                                     \<lparr>last_char_is_space := is_space\<rparr>)
                           else insert_text_new op_mem dup_mem
                                  (store_current u (la\<lparr>mergeable := False\<rparr>)) co txt is_space)
                     else insert_text_new op_mem dup_mem u co txt is_space)
           else insert_text_new op_mem dup_mem u co txt is_space)"

definition delete_range_new ::
  "WPUndo \<Rightarrow> WPUndoOperation \<Rightarrow> bool \<Rightarrow> bool \<Rightarrow> GtkTextIter \<Rightarrow> GtkTextIter \<Rightarrow> error + WPUndo" where
  "delete_range_new u co mrg is_space start end_iter =
     (case wp_undo_get_toggled_tags u start end_iter of
        (u1, tags) \<Rightarrow>
          wp_undo_add_queue (u1\<lparr>last_char_is_space := is_space\<rparr>)
            (co\<lparr>op_type := WP_UNDO_DELETE, mergeable := mrg, op_tags := tags\<rparr>))"

text \<open>
  The local \<^verbatim>\<open>co\<close> of \<^verbatim>\<open>wp_undo_delete_range\<close>, as it is when the merge is tried.
  \<^verbatim>\<open>co.backspace = co.start < gtk_text_iter_get_offset (&pos)\<close> is evaluated before
  \<^verbatim>\<open>co.start\<close> is assigned, when it is still the 0 of the initialiser.
\<close>

definition delete_range_co :: "GtkTextBuffer \<Rightarrow> GtkTextIter \<Rightarrow> GtkTextIter \<Rightarrow> WPUndoOperation" where
  "delete_range_co b start end_iter =
     (let pos = insert_mark b;
          co0 = op_zero\<lparr>backspace := (op_start op_zero < int pos)\<rparr>;
          co1 = co0\<lparr>op_start := int start, op_end := int end_iter,
                    op_text := Some (get_slice b start end_iter)\<rparr>
      in co1\<lparr>mergeable := \<not> (op_end co1 - op_start co1 > 1 \<or>
                                g_utf8_get_char (get_slice b start end_iter) = 10)\<rparr>)"

definition wp_undo_delete_range ::
  "bool \<Rightarrow> WPUndo \<Rightarrow> GtkTextIter \<Rightarrow> GtkTextIter \<Rightarrow> error + WPUndo" where
  "wp_undo_delete_range slice_mem u start end_iter =
     (if undo_disabled u > 0 \<or> low_mem u then Inr u
      else
        let b = text_buffer u;
            txt = get_slice b start end_iter
        in case g_malloc slice_mem of
             Inl e \<Rightarrow> Inl e
           | Inr slice \<Rightarrow>
           if \<not> slice then Inr (emit_no_memory u)
           else
             let is_space = g_unichar_isspace (g_utf8_get_char txt);
                 co = delete_range_co b start end_iter;
                 mrg = (mergeable co \<and>
                        (if backspace co then \<not> iter_toggles_tag b start None
                         else \<not> iter_toggles_tag b end_iter None))
             in if mergeable co \<and> current_op u \<noteq> NULL
                then (case deref_current u of
                        Inl e \<Rightarrow> Inl e
                      | Inr la \<Rightarrow>
                          if mergeable la \<and> op_type la = WP_UNDO_DELETE \<and> backspace la = backspace co
                          then (if backspace co \<and> op_start la = op_end co \<and>
                                   (is_space \<or> \<not> last_char_is_space u)
                                then Inr ((store_current u
                                             (la\<lparr>op_text := g_strconcat (Some txt) (op_text la),
                                                 op_start := op_start co,
                                                 op_tags := update_tags_range (op_tags la) (op_start co) (op_end la),
                                                 mergeable := mrg\<rparr>))
                                          \<lparr>last_char_is_space := is_space\<rparr>)
                                else if \<not> backspace co \<and> op_end la = op_start co \<and>
                                        (is_space \<or> \<not> last_char_is_space u)
                                then (case g_strconcat (op_text la) (Some txt) of
                                        Some str \<Rightarrow>
                                          Inr ((store_current u
                                                  (la\<lparr>op_text := Some str,
                                                      op_end := op_end co,
                                                      op_tags := update_tags_range (op_tags la) (op_start la) (op_end co),
                                                      mergeable := mrg\<rparr>))
                                               \<lparr>last_char_is_space := is_space\<rparr>)
                                      | None \<Rightarrow>
                                          delete_range_new
                                            (store_current u (la\<lparr>op_end := op_end co, mergeable := False\<rparr>))
                                            co mrg is_space start end_iter)
                                else delete_range_new (store_current u (la\<lparr>mergeable := False\<rparr>))
                                       co mrg is_space start end_iter)
                          else delete_range_new u co mrg is_space start end_iter)
                else delete_range_new u co mrg is_space start end_iter)"

definition wp_undo_apply_tag ::
  "bool \<Rightarrow> WPUndo \<Rightarrow> GtkTextIter \<Rightarrow> GtkTextIter \<Rightarrow> GtkTextTag option \<Rightarrow> bool \<Rightarrow> error + WPUndo" where
  "wp_undo_apply_tag op_mem u start end_iter tg enable =
     (if undo_disabled u > 0 \<or> low_mem u then Inr u
      else if current_op u \<noteq> NULL \<and> tg \<noteq> None
      then (case deref_current u of
              Inl e \<Rightarrow> Inl e
            | Inr x \<Rightarrow>
               (case op_type x of
                  WP_UNDO_INSERT \<Rightarrow>
                    Inr (store_current u
                           (x\<lparr>op_tags := op_tags x @ [wp_undo_create_tag (int start) end_iter (the tg) enable]\<rparr>))
                | WP_UNDO_TAG \<Rightarrow>
                    if int start \<ge> op_start x \<and> int end_iter \<le> op_end x
                    then Inr (store_current u
                                (x\<lparr>op_tags := wp_undo_create_tag (int start) end_iter (the tg) enable # op_tags x\<rparr>))
                    else Inr u
                | WP_UNDO_FMT \<Rightarrow>
                    Inr (store_current u
                           (x\<lparr>op_tags := wp_undo_create_tag (int start) end_iter (the tg) enable # op_tags x\<rparr>))
                | _ \<Rightarrow> Inr u))
      else if tg = None
      then (case g_malloc op_mem of
              Inl e \<Rightarrow> Inl e
            | Inr op \<Rightarrow>
                if \<not> op then Inr (emit_no_memory u)
                else (case wp_undo_get_toggled_tags u start end_iter of
                        (u1, tags) \<Rightarrow>
                          wp_undo_add_queue u1
                            (op_zero\<lparr>op_type := WP_UNDO_TAG, orig_tags := tags, op_start := int start,
                                    op_end := int end_iter, op_tags := [], mergeable := False\<rparr>)))
      else Inr u)"

definition wp_undo_simple_justification ::
  "bool \<Rightarrow> WPUndo \<Rightarrow> GtkTextIter \<Rightarrow> GtkTextIter \<Rightarrow> GtkTextTag option \<Rightarrow> GtkTextTag option \<Rightarrow> error + WPUndo" where
  "wp_undo_simple_justification op_mem u start end_iter orig tg =
     (if undo_disabled u > 0 \<or> low_mem u then Inr u
      else case g_malloc op_mem of
             Inl e \<Rightarrow> Inl e
           | Inr op \<Rightarrow>
               if \<not> op then Inr (emit_no_memory u)
               else wp_undo_add_queue u
                      (op_zero\<lparr>op_type := WP_UNDO_SIMPLE_JUSTIFY, orig_tag := orig, op_tag := tg,
                              op_start := int start, op_end := int end_iter, mergeable := False\<rparr>))"

definition selection_new :: "bool \<Rightarrow> WPUndo \<Rightarrow> int \<Rightarrow> int \<Rightarrow> error + WPUndo" where
  "selection_new op_mem u istart iend =
     (if istart \<noteq> iend
      then (case g_malloc op_mem of
              Inl e \<Rightarrow> Inl e
            | Inr op \<Rightarrow>
                if \<not> op then Inr (emit_no_memory u)
                else wp_undo_add_queue u
                       (op_zero\<lparr>op_type := WP_UNDO_SELECT, sel_start := istart, sel_end := iend,
                               mergeable := True\<rparr>))
      else Inr u)"

definition wp_undo_selection_changed ::
  "bool \<Rightarrow> WPUndo \<Rightarrow> GtkTextIter \<Rightarrow> GtkTextIter \<Rightarrow> error + WPUndo" where
  "wp_undo_selection_changed op_mem u start end_iter =
     (if undo_disabled u > 0 \<or> low_mem u then Inr u
      else
        let istart = int start; iend = int end_iter
        in if current_op u \<noteq> NULL
           then (case deref_current u of
                   Inl e \<Rightarrow> Inl e
                 | Inr x \<Rightarrow>
                     if op_type x = WP_UNDO_SELECT
                     then (if (sel_start x = istart \<or> sel_end x = iend) \<and> mergeable x
                           then Inr (store_current u (x\<lparr>sel_start := istart, sel_end := iend\<rparr>))
                           else selection_new op_mem (store_current u (x\<lparr>mergeable := False\<rparr>)) istart iend)
                     else selection_new op_mem u istart iend)
           else selection_new op_mem u istart iend)"

definition wp_undo_format_changed :: "bool \<Rightarrow> WPUndo \<Rightarrow> bool \<Rightarrow> error + WPUndo" where
  "wp_undo_format_changed op_mem u rich =
     (if undo_disabled u > 0 \<or> low_mem u then Inr u
      else case g_malloc op_mem of
             Inl e \<Rightarrow> Inl e
           | Inr op \<Rightarrow>
               if \<not> op then Inr (emit_no_memory u)
               else (case wp_undo_get_toggled_tags u 0 (get_char_count (text_buffer u)) of
                       (u1, tags) \<Rightarrow>
                         wp_undo_add_queue u1
                           (op_zero\<lparr>op_type := WP_UNDO_FMT, rich_text := rich, op_tags := tags\<rparr>)))"

definition wp_undo_last_line_justify :: "bool \<Rightarrow> WPUndo \<Rightarrow> int \<Rightarrow> int \<Rightarrow> error + WPUndo" where
  "wp_undo_last_line_justify op_mem u old_j new_j =
     (if undo_disabled u > 0 \<or> low_mem u then Inr u
      else case g_malloc op_mem of
             Inl e \<Rightarrow> Inl e
           | Inr op \<Rightarrow>
               if \<not> op then Inr (emit_no_memory u)
               else wp_undo_add_queue u
                      (op_zero\<lparr>op_type := WP_UNDO_LAST_LINE_JUSTIFY, old_line_justify := old_j,
                              new_line_justify := new_j\<rparr>))"

subsection \<open>The undo level property\<close>

text \<open>
  \<^verbatim>\<open>wp_undo_set_property\<close> for \<^verbatim>\<open>PROP_UNDO_LEVEL\<close>. GObject checks the new value against
  the range of the property, \<open>MIN_UNDO_LEVEL .. MAX_UNDO_LEVEL\<close>, before the setter runs.
  In the branch that trims the undo queue the C code indexes the redo queue.
\<close>

definition set_undo_levels_trim_undo :: "WPUndo \<Rightarrow> int \<Rightarrow> error + WPUndo" where
  "set_undo_levels_trim_undo u sz =
     (if sz > 0
      then (if undo_queue_len u > sz
            then (case truncate_after (redo_queue u) (undo_queue_len u - sz - 1) of
                    Inl e \<Rightarrow> Inl e
                  | Inr q \<Rightarrow> Inr (u\<lparr>redo_queue := q, undo_queue_len := undo_queue_len u - sz\<rparr>))
            else Inr ((if undo_queue u \<noteq> [] then undo_head_freed u else u)
                      \<lparr>undo_queue := [], undo_queue_len := 0\<rparr>))
      else Inr u)"

definition wp_undo_set_undo_levels :: "WPUndo \<Rightarrow> int \<Rightarrow> error + WPUndo" where
  "wp_undo_set_undo_levels u new_size =
     (case (if new_size - max_undo_level u < 0
            then (let sz = - (new_size - max_undo_level u);
                      qsize = int (length (redo_queue u))
                  in if qsize > sz
                     then (case truncate_after (redo_queue u) (qsize - sz - 1) of
                             Inl e \<Rightarrow> Inl e
                           | Inr q \<Rightarrow> set_undo_levels_trim_undo (u\<lparr>redo_queue := q\<rparr>) 0)
                     else set_undo_levels_trim_undo
                            ((if redo_queue u \<noteq> [] then redo_head_freed u else u)\<lparr>redo_queue := []\<rparr>)
                            (sz - qsize))
            else Inr u) of
        Inl e \<Rightarrow> Inl e
      | Inr u1 \<Rightarrow> Inr (wp_undo_send_signals (u1\<lparr>max_undo_level := new_size\<rparr>)))"

definition wp_undo_set_low_memory :: "WPUndo \<Rightarrow> bool \<Rightarrow> error + WPUndo" where
  "wp_undo_set_low_memory u v =
     (let u1 = u\<lparr>low_mem := v\<rparr> in if low_mem u1 then wp_undo_reset u1 else Inr u1)"

section \<open>Replaying operations\<close>

subsection \<open>Re-applying saved tags\<close>

definition tag_get_name :: "GtkTextBuffer \<Rightarrow> GtkTextTag \<Rightarrow> string option" where
  "tag_get_name b t = (if t < length (tag_table b) then tag_name (tag_table b ! t) else None)"

definition tag_get_image_index :: "GtkTextBuffer \<Rightarrow> GtkTextTag \<Rightarrow> string option" where
  "tag_get_image_index b t = (if t < length (tag_table b) then image_index (tag_table b ! t) else None)"

definition g_str_has_prefix :: "string \<Rightarrow> string \<Rightarrow> bool" where
  "g_str_has_prefix str pre = (take (length pre) str = pre)"

fun tag_table_lookup_from :: "GtkTextTagInfo list \<Rightarrow> string \<Rightarrow> nat \<Rightarrow> GtkTextTag option" where
  "tag_table_lookup_from [] name i = None"
| "tag_table_lookup_from (x # xs) name i =
     (if tag_name x = Some name then Some i else tag_table_lookup_from xs name (Suc i))"

definition tag_table_lookup :: "GtkTextBuffer \<Rightarrow> string \<Rightarrow> GtkTextTag option" where
  "tag_table_lookup b name = tag_table_lookup_from (tag_table b) name 0"

definition buffer_create_tag :: "GtkTextBuffer \<Rightarrow> string \<Rightarrow> GtkTextBuffer \<times> GtkTextTag" where
  "buffer_create_tag b name =
     (b\<lparr>tag_table := tag_table b @ [\<lparr>tag_name = Some name, image_index = None\<rparr>]\<rparr>,
      length (tag_table b))"

fun apply_saved_removes :: "GtkTextBuffer \<Rightarrow> WPUndoTag list \<Rightarrow> GtkTextBuffer" where
  "apply_saved_removes b [] = b"
| "apply_saved_removes b (t # ts) =
     (if \<not> tag_apply t
      then apply_saved_removes
             (buffer_remove_tag b (tag_tag t) (get_iter_at_offset b (tag_start t))
                (get_iter_at_offset b (tag_end t))) ts
      else apply_saved_removes b ts)"

definition apply_saved_apply :: "GtkTextBuffer \<Rightarrow> WPUndoTag \<Rightarrow> GtkTextBuffer \<times> WPUndoTag" where
  "apply_saved_apply b t =
     (let name = tag_get_name b (tag_tag t);
          s = get_iter_at_offset b (tag_start t);
          e = get_iter_at_offset b (tag_end t)
      in if name \<noteq> None \<and> g_str_has_prefix (the name) ''image-tag-'' \<and>
            \<not> g_str_has_prefix (the name) ''image-tag-replace-''
         then (case tag_get_image_index b (tag_tag t) of
                 None \<Rightarrow> (b, t)
               | Some image_id \<Rightarrow>
                   (let b1 = buffer_remove_tag b (tag_tag t) s e;
                        new_name = ''image-tag-replace-'' @ image_id
                    in case tag_table_lookup b1 new_name of
                         Some t' \<Rightarrow> (buffer_apply_tag b1 t' s e, t\<lparr>tag_tag := t'\<rparr>)
                       | None \<Rightarrow>
                           (case buffer_create_tag b1 new_name of
                              (b2, t') \<Rightarrow> (buffer_apply_tag b2 t' s e, t\<lparr>tag_tag := t'\<rparr>))))
         else (buffer_apply_tag b (tag_tag t) s e, t))"

fun apply_saved_applies :: "GtkTextBuffer \<Rightarrow> WPUndoTag list \<Rightarrow> GtkTextBuffer \<times> WPUndoTag list" where
  "apply_saved_applies b [] = (b, [])"
| "apply_saved_applies b (t # ts) =
     (if tag_apply t
      then (case apply_saved_apply b t of
              (b1, t1) \<Rightarrow> (case apply_saved_applies b1 ts of (b2, ts2) \<Rightarrow> (b2, t1 # ts2)))
      else (case apply_saved_applies b ts of (b2, ts2) \<Rightarrow> (b2, t # ts2)))"

text \<open>
  \<^verbatim>\<open>wp_undo_apply_saved_tags\<close>: all removals first, then all applications. An
  application may replace the tag stored in the list, so the list is returned as well.
\<close>

definition wp_undo_apply_saved_tags :: "GtkTextBuffer \<Rightarrow> WPUndoTag list \<Rightarrow> GtkTextBuffer \<times> WPUndoTag list" where
  "wp_undo_apply_saved_tags b tags = apply_saved_applies (apply_saved_removes b tags) tags"

subsection \<open>Selections and bullets\<close>

text \<open>
  \<^verbatim>\<open>wp_undo_redo_selection\<close> is only ever called with a selection operation; with
  another operation the iterators \<^verbatim>\<open>start\<close> and \<^verbatim>\<open>end\<close> would be read uninitialised,
  which the model leaves as the buffer's end.
\<close>

function wp_undo_redo_selection ::
  "GtkTextBuffer \<Rightarrow> WPUndoOperation list list \<Rightarrow> WPUndoOperation \<Rightarrow> bool \<Rightarrow> GtkTextBuffer" where
  "wp_undo_redo_selection b queue x first =
     (let sstart = fst (get_selection_bounds b);
          send = snd (get_selection_bounds b);
          start = (if op_type x = WP_UNDO_SELECT then get_iter_at_offset b (sel_start x)
                   else get_char_count b);
          end_iter = (if op_type x = WP_UNDO_SELECT then get_iter_at_offset b (sel_end x)
                      else get_char_count b)
      in if sstart = start \<and> send = end_iter
         then (case queue of
                 (pop # ops) # q \<Rightarrow>
                   if first \<and> op_type pop = WP_UNDO_SELECT
                   then wp_undo_redo_selection b queue pop False
                   else buffer_place_cursor b end_iter
               | _ \<Rightarrow> buffer_place_cursor b end_iter)
         else buffer_select_range b start end_iter)"
  by pat_completeness auto
termination
  by (relation "measure (\<lambda>(b, queue, x, first). if first then 1 else 0)") auto

definition iter_has_tag :: "GtkTextBuffer \<Rightarrow> GtkTextIter \<Rightarrow> GtkTextTag \<Rightarrow> bool" where
  "iter_has_tag b p t = (t \<in> set (iter_get_tags b p))"

definition iter_ends_tag :: "GtkTextBuffer \<Rightarrow> GtkTextIter \<Rightarrow> GtkTextTag \<Rightarrow> bool" where
  "iter_ends_tag b p t = (t \<in> set (iter_get_toggled_tags b p False))"

text \<open>\<^verbatim>\<open>_wp_text_iter_skip_bullet\<close> of \<^verbatim>\<open>wptextbuffer.c\<close>, forward direction.\<close>

definition wp_text_iter_skip_bullet :: "GtkTextBuffer \<Rightarrow> GtkTextIter \<Rightarrow> GtkTextTag \<Rightarrow> bool \<times> GtkTextIter" where
  "wp_text_iter_skip_bullet b p t =
     (if iter_has_tag b p t
      then (if \<not> iter_ends_tag b p t then (True, snd (iter_forward_to_tag_toggle b p (Some t)))
            else (True, p))
      else (False, p))"

definition wp_undo_skip_bullet_at_cursor :: "GtkTextBuffer \<Rightarrow> GtkTextBuffer" where
  "wp_undo_skip_bullet_at_cursor b =
     (case wp_text_iter_skip_bullet b (insert_mark b) (bullet_tag b) of
        (True, pos) \<Rightarrow> buffer_place_cursor b pos
      | (False, pos) \<Rightarrow> b)"

text \<open>
  The loop of the insert case of \<^verbatim>\<open>wp_undo_undo\<close>:
  \<^verbatim>\<open>while (gtk_text_iter_ends_line (&at)) { ++proposed_cursor_pos; at = iterator at offset 1; }\<close>
  It does not return when the position at offset 1 ends a line.
\<close>

partial_function (option) bullet_line_loop :: "GtkTextBuffer \<Rightarrow> GtkTextIter \<Rightarrow> int \<Rightarrow> int option" where
  "bullet_line_loop b at pcp =
     (if iter_ends_line b at then bullet_line_loop b (get_iter_at_offset b 1) (pcp + 1)
      else Some pcp)"

declare bullet_line_loop.simps [code]

subsection \<open>Undo and redo\<close>

text \<open>
  One iteration of the loop of \<^verbatim>\<open>wp_undo_undo\<close>: the inverse of one operation. The
  result is the engine (with the buffer), the proposed cursor position and the
  operation, whose saved tags may have been replaced.

  \<^verbatim>\<open>gtk_text_buffer_begin_user_action\<close> and \<^verbatim>\<open>gtk_text_buffer_end_user_action\<close>
  only emit signals of the buffer; handlers connected to the buffer are outside the
  engine and not modelled.
\<close>

definition set_buffer :: "WPUndo \<Rightarrow> GtkTextBuffer \<Rightarrow> WPUndo" where
  "set_buffer u b = u\<lparr>text_buffer := b\<rparr>"

definition undo_operation ::
  "WPUndo \<Rightarrow> int \<Rightarrow> WPUndoOperation \<Rightarrow> error + (WPUndo \<times> int \<times> WPUndoOperation)" where
  "undo_operation u pcp x =
     (let b = text_buffer u
      in case op_type x of
           WP_UNDO_DELETE \<Rightarrow>
             (case op_text x of
                None \<Rightarrow> Inl NullDeref
              | Some txt \<Rightarrow>
                  (case buffer_insert b (get_iter_at_offset b (op_start x)) txt of
                     (b1, end_iter) \<Rightarrow>
                       (let start = get_iter_at_offset b1 (op_start x);
                            b2 = buffer_remove_all_tags b1 start end_iter
                        in case wp_undo_apply_saved_tags b2 (op_tags x) of
                             (b3, tags) \<Rightarrow>
                               Inr (set_buffer u b3,
                                    (if backspace x then op_end x else op_start x),
                                    x\<lparr>op_tags := tags\<rparr>))))
         | WP_UNDO_INSERT \<Rightarrow>
             (let start = get_iter_at_offset b (op_start x);
                  end_iter = get_iter_at_offset b (op_end x)
              in case (if iter_toggles_tag b start (Some (bullet_tag b))
                       then bullet_line_loop b start pcp
                       else Some (op_start x)) of
                   None \<Rightarrow> Inl Diverges
                 | Some pcp1 \<Rightarrow> Inr (set_buffer u (buffer_delete b start end_iter), pcp1, x))
         | WP_UNDO_TAG \<Rightarrow>
             (let start = get_iter_at_offset b (op_start x);
                  end_iter = get_iter_at_offset b (op_end x);
                  b1 = buffer_select_range b start end_iter;
                  b2 = buffer_remove_all_tags b1 start end_iter
              in case wp_undo_apply_saved_tags b2 (orig_tags x) of
                   (b3, tags) \<Rightarrow> Inr (set_buffer u b3, pcp, x\<lparr>orig_tags := tags\<rparr>))
         | WP_UNDO_SELECT \<Rightarrow>
             Inr (set_buffer u (wp_undo_redo_selection b (undo_queue u) x True), pcp, x)
         | WP_UNDO_FMT \<Rightarrow>
             (if \<not> rich_text x
              then (case wp_undo_apply_saved_tags b (op_tags x) of
                      (b1, tags) \<Rightarrow>
                        Inr ((set_buffer u (buffer_place_cursor b1 (insert_mark b1)))
                               \<lparr>emitted := emitted u @ [FMT_CHANGED (\<not> rich_text x)]\<rparr>,
                             - 1, x\<lparr>op_tags := tags\<rparr>))
              else Inr ((set_buffer u (buffer_remove_all_tags b 0 (get_char_count b)))
                          \<lparr>emitted := emitted u @ [FMT_CHANGED (\<not> rich_text x)]\<rparr>,
                        pcp, x))
         | WP_UNDO_SIMPLE_JUSTIFY \<Rightarrow>
             (let start = get_iter_at_offset b (op_start x);
                  end_iter = get_iter_at_offset b (op_end x);
                  b1 = (case op_tag x of None \<Rightarrow> b | Some t \<Rightarrow> buffer_remove_tag b t start end_iter);
                  b2 = (case orig_tag x of None \<Rightarrow> b1 | Some t \<Rightarrow> buffer_apply_tag b1 t start end_iter)
              in Inr (set_buffer u b2, pcp, x))
         | WP_UNDO_LAST_LINE_JUSTIFY \<Rightarrow>
             Inr (u\<lparr>emitted := emitted u @ [LAST_LINE_JUSTIFY (old_line_justify x)]\<rparr>, pcp, x))"

definition redo_operation ::
  "WPUndo \<Rightarrow> int \<Rightarrow> WPUndoOperation \<Rightarrow> error + (WPUndo \<times> int \<times> WPUndoOperation)" where
  "redo_operation u pcp x =
     (let b = text_buffer u
      in case op_type x of
           WP_UNDO_DELETE \<Rightarrow>
             (let start = get_iter_at_offset b (op_start x);
                  end_iter = get_iter_at_offset b (op_end x)
              in Inr (set_buffer u (buffer_delete b start end_iter),
                      (if backspace x then op_end x else op_start x), x))
         | WP_UNDO_INSERT \<Rightarrow>
             (case op_text x of
                None \<Rightarrow> Inl NullDeref
              | Some txt \<Rightarrow>
                  (case buffer_insert b (get_iter_at_offset b (op_start x)) txt of
                     (b1, end_iter) \<Rightarrow>
                       (case wp_undo_apply_saved_tags b1 (op_tags x) of
                          (b2, tags) \<Rightarrow> Inr (set_buffer u b2, op_end x, x\<lparr>op_tags := tags\<rparr>))))
         | WP_UNDO_TAG \<Rightarrow>
             (if op_tags x = [] then Inl NullDeref
              else (let start = get_iter_at_offset b (op_start x);
                        end_iter = get_iter_at_offset b (op_end x);
                        b1 = buffer_select_range b start end_iter
                    in case wp_undo_apply_saved_tags b1 (op_tags x) of
                         (b2, tags) \<Rightarrow> Inr (set_buffer u b2, pcp, x\<lparr>op_tags := tags\<rparr>)))
         | WP_UNDO_SELECT \<Rightarrow>
             Inr (set_buffer u (wp_undo_redo_selection b (redo_queue u) x True), pcp, x)
         | WP_UNDO_FMT \<Rightarrow>
             (if rich_text x
              then (case wp_undo_apply_saved_tags b (op_tags x) of
                      (b1, tags) \<Rightarrow>
                        Inr ((set_buffer u (wp_undo_skip_bullet_at_cursor b1))
                               \<lparr>emitted := emitted u @ [FMT_CHANGED (rich_text x)]\<rparr>,
                             pcp, x\<lparr>op_tags := tags\<rparr>))
              else Inr ((set_buffer u (buffer_remove_all_tags b 0 (get_char_count b)))
                          \<lparr>emitted := emitted u @ [FMT_CHANGED (rich_text x)]\<rparr>,
                        pcp, x))
         | WP_UNDO_SIMPLE_JUSTIFY \<Rightarrow>
             (let start = get_iter_at_offset b (op_start x);
                  end_iter = get_iter_at_offset b (op_end x);
                  b1 = (case orig_tag x of None \<Rightarrow> b | Some t \<Rightarrow> buffer_remove_tag b t start end_iter);
                  b2 = (case op_tag x of None \<Rightarrow> b1 | Some t \<Rightarrow> buffer_apply_tag b1 t start end_iter)
              in Inr (set_buffer u b2, pcp, x))
         | WP_UNDO_LAST_LINE_JUSTIFY \<Rightarrow>
             Inr (u\<lparr>emitted := emitted u @ [LAST_LINE_JUSTIFY (new_line_justify x)]\<rparr>, pcp, x))"

text \<open>
  The \<^verbatim>\<open>while (lact)\<close> loops: the operations are visited in list order; the visited
  operations are collected in the same order.
\<close>

fun replay_loop ::
  "(WPUndo \<Rightarrow> int \<Rightarrow> WPUndoOperation \<Rightarrow> error + (WPUndo \<times> int \<times> WPUndoOperation)) \<Rightarrow>
   WPUndo \<Rightarrow> int \<Rightarrow> WPUndoOperation list \<Rightarrow> error + (WPUndo \<times> int \<times> WPUndoOperation list)" where
  "replay_loop f u pcp [] = Inr (u, pcp, [])"
| "replay_loop f u pcp (x # xs) =
     (case f u pcp x of
        Inl e \<Rightarrow> Inl e
      | Inr (u1, pcp1, x1) \<Rightarrow>
          (case replay_loop f u1 pcp1 xs of
             Inl e \<Rightarrow> Inl e
           | Inr (u2, pcp2, xs2) \<Rightarrow> Inr (u2, pcp2, x1 # xs2)))"

definition place_proposed_cursor :: "WPUndo \<Rightarrow> int \<Rightarrow> WPUndo" where
  "place_proposed_cursor u pcp =
     (if pcp \<noteq> - 1
      then set_buffer u (buffer_place_cursor (text_buffer u) (get_iter_at_offset (text_buffer u) pcp))
      else u)"

text \<open>
  \<^verbatim>\<open>wp_undo_undo\<close>. The head group moves to the redo queue and is then walked from
  its head, that is from the most recently recorded operation to the first one.
  \<^verbatim>\<open>current_op\<close>, when set, points into the group that moves.
\<close>

definition wp_undo_undo :: "WPUndo \<Rightarrow> error + WPUndo" where
  "wp_undo_undo u =
     (case undo_queue u of
        [] \<Rightarrow> Inr u
      | lact # rest \<Rightarrow>
          if low_mem u then Inr u
          else
            (let u1 = wp_undo_freeze u;
                 u2 = u1\<lparr>undo_queue := rest, redo_queue := lact # redo_queue u1,
                        undo_queue_len := undo_queue_len u1 - 1,
                        current_op := (if current_op u1 = UndoHead then RedoHead else current_op u1)\<rparr>
             in case replay_loop undo_operation u2 (- 1) lact of
                  Inl e \<Rightarrow> Inl e
                | Inr (u3, pcp, ops) \<Rightarrow>
                    (let u4 = u3\<lparr>redo_queue := ops # tl (redo_queue u3)\<rparr>;
                         u5 = wp_undo_thaw (place_proposed_cursor u4 pcp)
                     in case wp_undo_reset_mergeable u5 of
                          Inl e \<Rightarrow> Inl e
                        | Inr u6 \<Rightarrow> Inr (wp_undo_send_signals u6))))"

text \<open>
  \<^verbatim>\<open>wp_undo_redo\<close>. The head group of the redo queue moves to the undo queue; its
  operation list is reversed in place with \<^verbatim>\<open>g_slist_reverse\<close> and walked in recording
  order. The queue node still points at the old first node, which is now the last node
  of the reversed list: the group left in the undo queue holds only the operation
  recorded last. \<^verbatim>\<open>current_op\<close> is set to NULL after each operation.
\<close>

definition group_after_reverse :: "WPUndoOperation list \<Rightarrow> WPUndoOperation list" where
  "group_after_reverse ops = (case ops of [] \<Rightarrow> [] | x # xs \<Rightarrow> [last (x # xs)])"

definition wp_undo_redo :: "WPUndo \<Rightarrow> error + WPUndo" where
  "wp_undo_redo u =
     (case redo_queue u of
        [] \<Rightarrow> Inr u
      | lact # rest \<Rightarrow>
          if low_mem u then Inr u
          else
            (let u1 = wp_undo_freeze u;
                 u2 = u1\<lparr>redo_queue := rest, undo_queue := lact # undo_queue u1,
                        undo_queue_len := undo_queue_len u1 + 1\<rparr>
             in case replay_loop redo_operation u2 (- 1) (rev lact) of
                  Inl e \<Rightarrow> Inl e
                | Inr (u3, pcp, ops) \<Rightarrow>
                    (let u4 = u3\<lparr>undo_queue := group_after_reverse ops # tl (undo_queue u3),
                                current_op := (if lact = [] then current_op u3 else NULL)\<rparr>;
                         u5 = wp_undo_thaw (place_proposed_cursor u4 pcp)
                     in case wp_undo_reset_mergeable u5 of
                          Inl e \<Rightarrow> Inl e
                        | Inr u6 \<Rightarrow> Inr (wp_undo_send_signals u6))))"

section \<open>Scenarios\<close>

text \<open>
  Sequences of calls are run from left to right and stop at the first failure. The host
  (\<^verbatim>\<open>wptextbuffer.c\<close>) brackets a user action with \<^verbatim>\<open>wp_undo_start_group\<close> and
  \<^verbatim>\<open>wp_undo_end_group\<close>, and records an insertion or a deletion right before the buffer
  performs it; \<open>host_insert_text\<close> and \<open>host_delete_range\<close> are that pair of steps on the
  plain buffer. The \<open>record_\<close> functions are the recording calls with memory left for
  every allocation.
\<close>

fun run :: "('s \<Rightarrow> error + 's) list \<Rightarrow> 's \<Rightarrow> error + 's" where
  "run [] s = Inr s"
| "run (f # fs) s = (case f s of Inl e \<Rightarrow> Inl e | Inr s' \<Rightarrow> run fs s')"

definition ascii :: "string \<Rightarrow> utf8" where
  "ascii str = map of_char str"

definition plain_buffer :: "utf8 \<Rightarrow> nat \<Rightarrow> GtkTextBuffer" where
  "plain_buffer txt cursor =
     \<lparr>contents = map (\<lambda>c. (c, [])) txt, insert_mark = cursor, selection_bound = cursor,
      bullet_tag = 0, tag_table = []\<rparr>"

definition empty_buffer :: GtkTextBuffer where
  "empty_buffer = plain_buffer [] 0"

definition begin_transaction :: "WPUndo \<Rightarrow> error + WPUndo" where
  "begin_transaction u = Inr (wp_undo_start_group u)"

definition end_transaction :: "WPUndo \<Rightarrow> error + WPUndo" where
  "end_transaction u = Inr (wp_undo_end_group u)"

definition record_insert :: "nat \<Rightarrow> utf8 \<Rightarrow> WPUndo \<Rightarrow> error + WPUndo" where
  "record_insert pos txt u = wp_undo_insert_text True True u pos txt (strlen txt)"

definition record_delete :: "nat \<Rightarrow> nat \<Rightarrow> WPUndo \<Rightarrow> error + WPUndo" where
  "record_delete s e u = wp_undo_delete_range True u s e"

definition record_selection :: "nat \<Rightarrow> nat \<Rightarrow> WPUndo \<Rightarrow> error + WPUndo" where
  "record_selection s e u = wp_undo_selection_changed True u s e"

definition record_last_line_justify :: "int \<Rightarrow> int \<Rightarrow> WPUndo \<Rightarrow> error + WPUndo" where
  "record_last_line_justify old_j new_j u = wp_undo_last_line_justify True u old_j new_j"

definition host_insert_text :: "nat \<Rightarrow> utf8 \<Rightarrow> WPUndo \<Rightarrow> error + WPUndo" where
  "host_insert_text pos txt u =
     (case record_insert pos txt u of
        Inl e \<Rightarrow> Inl e
      | Inr u1 \<Rightarrow> Inr (set_buffer u1 (fst (buffer_insert (text_buffer u1) pos txt))))"

definition host_delete_range :: "nat \<Rightarrow> nat \<Rightarrow> WPUndo \<Rightarrow> error + WPUndo" where
  "host_delete_range s e u =
     (case record_delete s e u of
        Inl e' \<Rightarrow> Inl e'
      | Inr u1 \<Rightarrow> Inr (set_buffer u1 (buffer_delete (text_buffer u1) s e)))"

fun type_chars :: "nat \<Rightarrow> utf8 \<Rightarrow> (WPUndo \<Rightarrow> error + WPUndo) list" where
  "type_chars pos [] = []"
| "type_chars pos (c # cs) = record_insert pos [c] # type_chars (Suc pos) cs"

text \<open>What a scenario leaves behind: the texts and the types of the queued operations.\<close>

definition stored_texts :: "error + WPUndo \<Rightarrow> error + utf8 option list list" where
  "stored_texts r = (case r of Inl e \<Rightarrow> Inl e | Inr u \<Rightarrow> Inr (map (map op_text) (undo_queue u)))"

definition stored_flags :: "error + WPUndo \<Rightarrow> error + (WPUndoType \<times> bool) list list" where
  "stored_flags r =
     (case r of Inl e \<Rightarrow> Inl e
      | Inr u \<Rightarrow> Inr (map (map (\<lambda>x. (op_type x, mergeable x))) (undo_queue u)))"

definition buffer_text :: "error + WPUndo \<Rightarrow> error + utf8" where
  "buffer_text r = (case r of Inl e \<Rightarrow> Inl e | Inr u \<Rightarrow> Inr (get_text (text_buffer u)))"

section \<open>Basic facts\<close>

lemmas record_defs =
  wp_undo_insert_text_def insert_text_new_def wp_undo_delete_range_def delete_range_new_def
  wp_undo_apply_tag_def wp_undo_simple_justification_def wp_undo_selection_changed_def
  selection_new_def wp_undo_format_changed_def wp_undo_last_line_justify_def
  wp_undo_add_queue_def link_current_op_def evict_oldest_def wp_undo_reset_mergeable_def
  wp_undo_send_signals_def bit_field_differs_def emit_no_memory_def deref_current_def
  store_current_def undo_head_freed_def redo_head_freed_def remove_image_tags_def g_strconcat_def
  update_tags_range_def g_slist_nth_exists_def truncate_after_def wp_undo_start_group_def
  wp_undo_end_group_def wp_undo_new_def DEF_UNDO_LEVEL_def op_zero_def insert_text_co_def
  delete_range_co_def strlen_def utf8_width_def g_utf8_strlen_def g_utf8_get_char_def
  g_unichar_isspace_def g_malloc_def

lemmas scenario_defs =
  record_insert_def record_delete_def record_selection_def record_last_line_justify_def
  host_insert_text_def host_delete_range_def begin_transaction_def end_transaction_def
  empty_buffer_def plain_buffer_def stored_texts_def stored_flags_def buffer_text_def ascii_def

lemmas buffer_defs =
  get_char_count_def get_text_def get_iter_at_offset_def iter_get_tags_def tags_before_def
  iter_get_toggled_tags_def iter_toggles_tag_def iter_ends_line_def get_slice_def
  mark_after_insert_def mark_after_delete_def buffer_insert_def buffer_delete_def map_range_def
  buffer_apply_tag_def buffer_remove_tag_def buffer_remove_all_tags_def buffer_select_range_def
  buffer_place_cursor_def get_selection_bounds_def set_buffer_def

declare g_malloc_def [simp]

lemma op_zero_simps [simp]:
  "op_type op_zero = WP_UNDO_INSERT" "op_start op_zero = 0" "op_end op_zero = 0"
  "op_text op_zero = None" "orig_tag op_zero = None" "op_tag op_zero = None"
  "orig_tags op_zero = []" "op_tags op_zero = []" "sel_start op_zero = 0" "sel_end op_zero = 0"
  "old_line_justify op_zero = 0" "new_line_justify op_zero = 0" "mergeable op_zero = False"
  "backspace op_zero = False" "rich_text op_zero = False"
  by (simp_all add: op_zero_def)

lemma insert_text_co_simps [simp]:
  "op_type (insert_text_co pos txt) = WP_UNDO_INSERT"
  "op_start (insert_text_co pos txt) = int pos"
  "op_end (insert_text_co pos txt) = int pos + int (length txt)"
  "op_text (insert_text_co pos txt) = None"
  "op_tags (insert_text_co pos txt) = []"
  "orig_tags (insert_text_co pos txt) = []"
  "mergeable (insert_text_co pos txt) = (length txt \<le> 1 \<and> g_utf8_get_char txt \<noteq> 10)"
  "backspace (insert_text_co pos txt) = False"
  by (auto simp: insert_text_co_def Let_def g_utf8_strlen_def)

lemma delete_range_co_simps [simp]:
  "op_type (delete_range_co b s e) = WP_UNDO_INSERT"
  "op_start (delete_range_co b s e) = int s"
  "op_end (delete_range_co b s e) = int e"
  "op_text (delete_range_co b s e) = Some (get_slice b s e)"
  "op_tags (delete_range_co b s e) = []"
  "orig_tags (delete_range_co b s e) = []"
  "mergeable (delete_range_co b s e) =
     (int e - int s \<le> 1 \<and> g_utf8_get_char (get_slice b s e) \<noteq> 10)"
  "backspace (delete_range_co b s e) = (0 < insert_mark b)"
  by (auto simp: delete_range_co_def Let_def)

lemma remove_image_chars_length [simp]: "length (remove_image_chars t) = length t"
  by (induction t) auto

lemma send_signals_queue [simp]:
  "undo_queue (wp_undo_send_signals u) = undo_queue u"
  by (simp add: wp_undo_send_signals_def Let_def)

lemma get_toggled_tags_queue [simp]:
  "undo_queue (fst (wp_undo_get_toggled_tags u s e)) = undo_queue u"
  by (simp add: wp_undo_get_toggled_tags_def Let_def split: prod.splits)

lemma emit_no_memory_queue:
  "undo_queue (emit_no_memory u) = undo_queue u \<or> undo_queue (emit_no_memory u) = tl (undo_queue u)"
  by (simp add: emit_no_memory_def wp_undo_send_signals_def undo_head_freed_def Let_def)

lemma evict_oldest_head:
  "undo_queue u = g # q \<Longrightarrow> \<exists>q'. undo_queue (evict_oldest first u) = g # q'"
  by (simp add: evict_oldest_def Let_def)

lemma link_current_op_head:
  "link_current_op u x = Inr u' \<Longrightarrow> \<exists>g q. undo_queue u' = (x # g) # q"
  by (auto simp: link_current_op_def split: OpPtr.splits list.splits)

lemma add_queue_head:
  assumes "wp_undo_add_queue u x = Inr u'"
  shows "undo_queue u' = undo_queue u \<or>
         (\<exists>g q. undo_queue u' = (x\<lparr>op_text := remove_image_tags (op_text x)\<rparr> # g) # q)"
proof (cases "disable_this_group u")
  case True
  with assms show ?thesis by (simp add: wp_undo_add_queue_def Let_def)
next
  case False
  from assms False obtain u1 u2 where
    l: "link_current_op u1 (x\<lparr>op_text := remove_image_tags (op_text x)\<rparr>) = Inr u2" and
    r: "undo_queue u' = undo_queue (evict_oldest (first_in_group u) (u2\<lparr>redo_queue := []\<rparr>))"
    by (simp add: wp_undo_add_queue_def Let_def split: sum.splits if_splits) fastforce+
  from link_current_op_head [OF l] obtain g q where
    "undo_queue u2 = (x\<lparr>op_text := remove_image_tags (op_text x)\<rparr> # g) # q" by blast
  then have "undo_queue (u2\<lparr>redo_queue := []\<rparr>) =
      (x\<lparr>op_text := remove_image_tags (op_text x)\<rparr> # g) # q"
    by simp
  from evict_oldest_head [OF this] r show ?thesis
    by metis
qed

lemma insert_text_new_head:
  assumes "insert_text_new op_ok dup_ok u co txt sp = Inr u'"
  shows "undo_queue u' = undo_queue u \<or> undo_queue u' = tl (undo_queue u) \<or>
         (\<exists>x g q. undo_queue u' = (x # g) # q \<and> op_text x = Some (remove_image_chars txt))"
proof -
  consider "undo_queue u' = undo_queue (emit_no_memory u)"
    | "undo_queue u' = undo_queue (emit_no_memory (u\<lparr>last_char_is_space := sp\<rparr>))"
    | "wp_undo_add_queue (u\<lparr>last_char_is_space := sp\<rparr>)
         (co\<lparr>op_type := WP_UNDO_INSERT, op_text := Some txt\<rparr>) = Inr u'"
    using assms by (simp add: insert_text_new_def Let_def split: if_splits)
  then show ?thesis
  proof cases
    case 1
    then show ?thesis using emit_no_memory_queue [of u] by metis
  next
    case 2
    then show ?thesis
      using emit_no_memory_queue [of "u\<lparr>last_char_is_space := sp\<rparr>"] by simp metis
  next
    case 3
    from add_queue_head [OF 3] show ?thesis
      by (auto simp: remove_image_tags_def)
  qed
qed

lemma delete_range_new_head:
  assumes "delete_range_new u co mrg sp s e = Inr u'"
  shows "undo_queue u' = undo_queue u \<or>
         (\<exists>x g q. undo_queue u' = (x # g) # q \<and> op_text x = remove_image_tags (op_text co))"
proof -
  obtain u1 tags where g: "wp_undo_get_toggled_tags u s e = (u1, tags)"
    by (cases "wp_undo_get_toggled_tags u s e")
  then have q: "undo_queue u1 = undo_queue u"
    using get_toggled_tags_queue [of u s e] by simp
  from assms g have a: "wp_undo_add_queue (u1\<lparr>last_char_is_space := sp\<rparr>)
            (co\<lparr>op_type := WP_UNDO_DELETE, mergeable := mrg, op_tags := tags\<rparr>) = Inr u'"
    by (simp add: delete_range_new_def)
  from add_queue_head [OF a] q show ?thesis
    by auto
qed

section \<open>Merging of insertions (C5)\<close>

text \<open>
  An insertion was merged into the operation at the head of the undo queue when the
  queue is as before except that this operation now ends later by the length of the new
  text and holds the old text followed by the new one.
\<close>

definition merged_insert :: "WPUndo \<Rightarrow> utf8 \<Rightarrow> error + WPUndo \<Rightarrow> bool" where
  "merged_insert u txt r =
     (case r of
        Inl e \<Rightarrow> False
      | Inr u' \<Rightarrow>
          (case undo_queue u of
             (x # xs) # q \<Rightarrow>
               (case undo_queue u' of
                  (x' # xs') # q' \<Rightarrow>
                    xs' = xs \<and> q' = q \<and> op_type x' = WP_UNDO_INSERT \<and>
                    op_start x' = op_start x \<and> op_end x' = op_end x + int (length txt) \<and>
                    op_text x' = g_strconcat (op_text x) (Some txt)
                | _ \<Rightarrow> False)
           | _ \<Rightarrow> False))"

lemma not_merged_insert:
  assumes "undo_queue u = (la # xs) # q" "op_text la = Some t" "t \<noteq> []"
    and "undo_queue u' = (la\<lparr>mergeable := False\<rparr> # xs) # q \<or> undo_queue u' = q \<or>
         (\<exists>x g q'. undo_queue u' = (x # g) # q' \<and> op_text x = Some [c'])"
  shows "\<not> merged_insert u [c] (Inr u')"
  using assms by (auto simp: merged_insert_def g_strconcat_def split: if_splits list.splits)

lemma insert_merge_rule:
  assumes en: "undo_disabled u \<le> 0" "\<not> low_mem u"
    and cur: "current_op u = UndoHead" "undo_queue u = (la # xs) # q"
    and la: "op_type la = WP_UNDO_INSERT" "mergeable la" "op_text la = Some t" "t \<noteq> []"
    and c: "c \<noteq> 10"
  shows "merged_insert u [c] (wp_undo_insert_text op_ok dup_ok u pos [c] (strlen [c])) \<longleftrightarrow>
         (op_end la = int pos \<and> (g_unichar_isspace c \<or> \<not> last_char_is_space u))"
proof (cases "op_end la = int pos \<and> (g_unichar_isspace c \<or> \<not> last_char_is_space u)")
  case True
  with assms show ?thesis
    by (simp add: merged_insert_def wp_undo_insert_text_def deref_current_def store_current_def
        g_utf8_get_char_def g_strconcat_def)
next
  case False
  define u1 where "u1 = store_current u (la\<lparr>mergeable := False\<rparr>)"
  define sp where "sp = g_unichar_isspace c"
  have q1: "undo_queue u1 = (la\<lparr>mergeable := False\<rparr> # xs) # q"
    using cur by (simp add: u1_def store_current_def)
  have r: "wp_undo_insert_text op_ok dup_ok u pos [c] (strlen [c]) =
      insert_text_new op_ok dup_ok u1 (insert_text_co pos [c]) [c] sp"
    using assms False
    by (cases "op_end la = int pos"; cases "g_unichar_isspace c"; cases "last_char_is_space u";
        simp add: wp_undo_insert_text_def deref_current_def u1_def sp_def g_utf8_get_char_def)
  have "\<not> merged_insert u [c] (insert_text_new op_ok dup_ok u1 (insert_text_co pos [c]) [c] sp)"
  proof (cases "insert_text_new op_ok dup_ok u1 (insert_text_co pos [c]) [c] sp")
    case (Inl e)
    then show ?thesis by (simp add: merged_insert_def)
  next
    case (Inr u')
    from insert_text_new_head [OF Inr] q1
    have "undo_queue u' = (la\<lparr>mergeable := False\<rparr> # xs) # q \<or> undo_queue u' = q \<or>
         (\<exists>x g q'. undo_queue u' = (x # g) # q' \<and> op_text x = Some [if c = 65532 then 32 else c])"
      by auto
    from not_merged_insert [OF cur(2) la(3) la(4) this] Inr show ?thesis by simp
  qed
  with False r show ?thesis by simp
qed

lemma not_merged_insert_gen:
  assumes "undo_queue u = (la # xs) # q" "op_text la = Some t" "t \<noteq> []"
    and "(\<exists>la'. undo_queue u' = (la' # xs) # q \<and> op_end la' = op_end la) \<or> undo_queue u' = q \<or>
         (\<exists>x g q'. undo_queue u' = (x # g) # q' \<and> op_text x = Some [c'])"
  shows "\<not> merged_insert u [c] (Inr u')"
  using assms by (auto simp: merged_insert_def g_strconcat_def split: if_splits list.splits)

lemma insert_text_new_not_merged:
  assumes q: "undo_queue u = (la # xs) # q" and t: "op_text la = Some t" "t \<noteq> []"
    and q1: "undo_queue u1 = (la1 # xs) # q" "op_end la1 = op_end la"
  shows "\<not> merged_insert u [c] (insert_text_new op_ok dup_ok u1 co [c] sp)"
proof (cases "insert_text_new op_ok dup_ok u1 co [c] sp")
  case (Inl e)
  then show ?thesis by (simp add: merged_insert_def)
next
  case (Inr u')
  from insert_text_new_head [OF Inr] q1
  have "(\<exists>la'. undo_queue u' = (la' # xs) # q \<and> op_end la' = op_end la) \<or> undo_queue u' = q \<or>
       (\<exists>x g q'. undo_queue u' = (x # g) # q' \<and> op_text x = Some [if c = 65532 then 32 else c])"
    by auto
  from not_merged_insert_gen [OF q t this] Inr show ?thesis by simp
qed

lemma insert_merge_iff:
  assumes en: "undo_disabled u \<le> 0" "\<not> low_mem u"
    and q: "undo_queue u = (la # xs) # q"
    and la: "op_type la = WP_UNDO_INSERT" "op_text la = Some t" "t \<noteq> []"
    and c: "c \<noteq> 10"
  shows "merged_insert u [c] (wp_undo_insert_text op_ok dup_ok u pos [c] (strlen [c])) \<longleftrightarrow>
         (current_op u = UndoHead \<and> mergeable la \<and> op_end la = int pos \<and>
          (g_unichar_isspace c \<or> \<not> last_char_is_space u))"
proof (cases "current_op u = UndoHead \<and> mergeable la")
  case True
  with insert_merge_rule [OF en _ q la(1) _ la(2,3) c, of op_ok dup_ok pos] show ?thesis by simp
next
  case False
  have mc: "mergeable (insert_text_co pos [c])"
    using c by (simp add: insert_text_co_def g_utf8_strlen_def g_utf8_get_char_def Let_def)
  note nm = insert_text_new_not_merged [OF q la(2,3)]
  have "\<not> merged_insert u [c] (wp_undo_insert_text op_ok dup_ok u pos [c] (strlen [c]))"
  proof (cases "current_op u")
    case NULL
    with en mc nm [OF q refl] show ?thesis
      by (simp add: wp_undo_insert_text_def Let_def)
  next
    case UndoHead
    with False have "\<not> mergeable la" by simp
    with en mc UndoHead q nm [OF q refl] show ?thesis
      by (simp add: wp_undo_insert_text_def Let_def deref_current_def)
  next
    case Freed
    with en mc show ?thesis
      by (simp add: wp_undo_insert_text_def Let_def deref_current_def merged_insert_def)
  next
    case RedoHead
    have sq: "\<And>y. undo_queue (store_current u y) = (la # xs) # q"
      using RedoHead q by (simp add: store_current_def split: list.splits)
    have m: "\<And>y sp. \<not> merged_insert u [c] (Inr ((store_current u y)\<lparr>last_char_is_space := sp\<rparr>))"
      using not_merged_insert_gen [OF q la(2,3), of "(store_current u y)\<lparr>last_char_is_space := sp\<rparr>" for y sp] sq
      by simp
    show ?thesis
    proof (cases "deref_current u")
      case (Inl e)
      with en mc RedoHead show ?thesis
        by (simp add: wp_undo_insert_text_def Let_def merged_insert_def)
    next
      case (Inr lb)
      with en mc RedoHead m nm [OF q refl] nm [OF sq refl] show ?thesis
        by (simp add: wp_undo_insert_text_def Let_def)
    qed
  qed
  with False show ?thesis by auto
qed

lemma typing_hello:
  "stored_texts (run (begin_transaction # type_chars 0 (ascii ''hello'') @ [end_transaction])
     (wp_undo_new empty_buffer)) = Inr [[Some (ascii ''hello'')]]"
  by (simp add: scenario_defs record_defs)

lemma typing_hello_world:
  "stored_texts (run (begin_transaction # type_chars 0 (ascii ''hello world'') @ [end_transaction])
     (wp_undo_new empty_buffer)) = Inr [[Some (ascii ''world''), Some (ascii ''hello '')]]"
  by (simp add: scenario_defs record_defs)

text \<open>
  \<^bold>\<open>C5\<close>, as amended. On an enabled engine, let the most recent operation of the undo
  queue be an Insert operation that holds some text. A newly recorded insertion of a
  single character that is not a newline merges into it if and only if that operation is
  the engine's current operation and is marked mergeable, the insertion starts at the end
  offset of that operation, and the new character is whitespace or the last recorded
  character was not. Typing "hello" one character at a time in one transaction leaves one
  Insert operation with the text "hello"; typing "hello world" leaves two, "hello " and
  "world".
\<close>

theorem C5_insert_merge:
  assumes "undo_disabled u \<le> 0" "\<not> low_mem u"
    and "undo_queue u = (la # xs) # q"
    and "op_type la = WP_UNDO_INSERT" "op_text la = Some t" "t \<noteq> []"
    and "c \<noteq> 10"
  shows "(merged_insert u [c] (wp_undo_insert_text op_mem dup_mem u pos [c] (strlen [c])) \<longleftrightarrow>
          (current_op u = UndoHead \<and> mergeable la \<and> op_end la = int pos \<and>
           (g_unichar_isspace c \<or> \<not> last_char_is_space u))) \<and>
         stored_texts (run (begin_transaction # type_chars 0 (ascii ''hello'') @ [end_transaction])
           (wp_undo_new empty_buffer)) = Inr [[Some (ascii ''hello'')]] \<and>
         stored_texts (run (begin_transaction # type_chars 0 (ascii ''hello world'') @ [end_transaction])
           (wp_undo_new empty_buffer)) = Inr [[Some (ascii ''world''), Some (ascii ''hello '')]]"
  using insert_merge_iff [OF assms] typing_hello typing_hello_world by simp

definition typed_hell :: WPUndo where
  "typed_hell =
     (wp_undo_new empty_buffer)
       \<lparr>undo_queue := [[op_zero\<lparr>op_end := 4, op_text := Some (ascii ''hell''), mergeable := True\<rparr>]],
        current_op := UndoHead, group := 1\<rparr>"

theorem C5_insert_merge_witness:
  "merged_insert typed_hell (ascii ''o'') (wp_undo_insert_text True True typed_hell 4 (ascii ''o'') 1)"
  using C5_insert_merge [of typed_hell "op_zero\<lparr>op_end := 4, op_text := Some (ascii ''hell''), mergeable := True\<rparr>"
      "[]" "[]" "ascii ''hell''" 111 True True 4]
  by (simp add: typed_hell_def wp_undo_new_def ascii_def strlen_def utf8_width_def g_unichar_isspace_def)

text \<open>
  C5 as stated fails: after the two-character insertion "ab" at offset 0, the
  character "c" inserted at offset 2 starts at the end of the preceding Insert operation
  and no whitespace is involved; it is stored as a second operation, because the
  preceding operation is not mergeable.
\<close>

theorem C5_counterexample:
  "stored_texts (run [begin_transaction, record_insert 0 (ascii ''ab''), record_insert 2 (ascii ''c''),
      end_transaction] (wp_undo_new empty_buffer)) = Inr [[Some (ascii ''c''), Some (ascii ''ab'')]]"
  by (simp add: scenario_defs record_defs)

section \<open>Merging of deletions (C6)\<close>

text \<open>
  The direction of a deletion is what \<^verbatim>\<open>co.start < gtk_text_iter_get_offset (&pos)\<close>
  says of the deleted range: backward (the Backspace key) when the range starts before
  the cursor, forward (the Delete key) when it starts at the cursor.
\<close>

definition deletes_backward :: "GtkTextBuffer \<Rightarrow> GtkTextIter \<Rightarrow> bool" where
  "deletes_backward b start = (int start < int (insert_mark b))"

text \<open>
  The direction flag that \<^verbatim>\<open>wp_undo_delete_range\<close> stores with a new deletion. The
  comparison is made while \<^verbatim>\<open>co.start\<close> is still 0, so the flag says that the insert
  mark is not at offset 0.
\<close>

definition new_delete_is_backward :: "WPUndo \<Rightarrow> bool" where
  "new_delete_is_backward u = (0 < insert_mark (text_buffer u))"

text \<open>
  A deletion was merged into the operation at the head of the undo queue when the queue
  is as before except that this operation grew by the deleted text: at its start for a
  backward deletion, at its end for a forward one.
\<close>

definition merged_delete :: "WPUndo \<Rightarrow> bool \<Rightarrow> utf8 \<Rightarrow> error + WPUndo \<Rightarrow> bool" where
  "merged_delete u backward txt r =
     (case r of
        Inl e \<Rightarrow> False
      | Inr u' \<Rightarrow>
          (case undo_queue u of
             (x # xs) # q \<Rightarrow>
               (case undo_queue u' of
                  (x' # xs') # q' \<Rightarrow>
                    xs' = xs \<and> q' = q \<and> op_type x' = WP_UNDO_DELETE \<and>
                    (if backward
                     then op_start x' = op_start x - int (length txt) \<and> op_end x' = op_end x \<and>
                          op_text x' = g_strconcat (Some txt) (op_text x)
                     else op_start x' = op_start x \<and> op_end x' = op_end x + int (length txt) \<and>
                          op_text x' = g_strconcat (op_text x) (Some txt))
                | _ \<Rightarrow> False)
           | _ \<Rightarrow> False))"

lemma not_merged_delete:
  assumes "undo_queue u = (la # xs) # q" "op_text la = Some t" "t \<noteq> []"
    and "undo_queue u' = (la # xs) # q \<or> undo_queue u' = (la\<lparr>mergeable := False\<rparr> # xs) # q \<or>
         (\<exists>x g q'. undo_queue u' = (x # g) # q' \<and> op_text x = Some [c'])"
  shows "\<not> merged_delete u bw [c] (Inr u')"
  using assms by (auto simp: merged_delete_def g_strconcat_def split: if_splits)

lemma delete_merge_rule:
  assumes en: "undo_disabled u \<le> 0" "\<not> low_mem u"
    and cur: "current_op u = UndoHead" "undo_queue u = (la # xs) # q"
    and la: "op_type la = WP_UNDO_DELETE" "mergeable la" "op_text la = Some t" "t \<noteq> []"
    and c: "get_slice (text_buffer u) s e = [c]" "c \<noteq> 10" "e = Suc s"
  shows "merged_delete u (new_delete_is_backward u) [c] (wp_undo_delete_range True u s e) \<longleftrightarrow>
         (backspace la = new_delete_is_backward u \<and>
          (if new_delete_is_backward u then op_start la = int e else op_end la = int s) \<and>
          (g_unichar_isspace c \<or> \<not> last_char_is_space u))"
proof (cases "backspace la = new_delete_is_backward u \<and>
          (if new_delete_is_backward u then op_start la = int e else op_end la = int s) \<and>
          (g_unichar_isspace c \<or> \<not> last_char_is_space u)")
  case True
  with assms show ?thesis
    by (simp add: merged_delete_def wp_undo_delete_range_def deref_current_def store_current_def
        g_utf8_get_char_def g_strconcat_def new_delete_is_backward_def Let_def)
next
  case no: False
  define co where "co = delete_range_co (text_buffer u) s e"
  define mrg where "mrg = (if new_delete_is_backward u then \<not> iter_toggles_tag (text_buffer u) s None
                         else \<not> iter_toggles_tag (text_buffer u) e None)"
  define u1 where "u1 = (if backspace la = new_delete_is_backward u
                         then store_current u (la\<lparr>mergeable := False\<rparr>) else u)"
  have q1: "undo_queue u1 = (la # xs) # q \<or> undo_queue u1 = (la\<lparr>mergeable := False\<rparr> # xs) # q"
    using cur by (simp add: u1_def store_current_def)
  have co: "op_text co = Some [c]"
    using c by (simp add: co_def)
  have r: "wp_undo_delete_range True u s e = delete_range_new u1 co mrg (g_unichar_isspace c) s e"
  proof (cases "backspace la = new_delete_is_backward u")
    case False
    with assms show ?thesis
      by (simp add: wp_undo_delete_range_def deref_current_def g_utf8_get_char_def
          new_delete_is_backward_def Let_def co_def mrg_def u1_def)
  next
    case same: True
    show ?thesis
    proof (cases "new_delete_is_backward u")
      case True
      with same assms no show ?thesis
        by (cases "op_start la = int e"; cases "g_unichar_isspace c"; cases "last_char_is_space u";
            simp add: wp_undo_delete_range_def deref_current_def g_utf8_get_char_def
            new_delete_is_backward_def Let_def co_def mrg_def u1_def)
    next
      case False
      with same assms no show ?thesis
        by (cases "op_end la = int s"; cases "g_unichar_isspace c"; cases "last_char_is_space u";
            simp add: wp_undo_delete_range_def deref_current_def g_utf8_get_char_def
            new_delete_is_backward_def Let_def co_def mrg_def u1_def)
    qed
  qed
  have "\<not> merged_delete u (new_delete_is_backward u) [c]
           (delete_range_new u1 co mrg (g_unichar_isspace c) s e)"
  proof (cases "delete_range_new u1 co mrg (g_unichar_isspace c) s e")
    case (Inl e)
    then show ?thesis by (simp add: merged_delete_def)
  next
    case (Inr u')
    from delete_range_new_head [OF Inr] q1 co
    have "undo_queue u' = (la # xs) # q \<or> undo_queue u' = (la\<lparr>mergeable := False\<rparr> # xs) # q \<or>
         (\<exists>x g q'. undo_queue u' = (x # g) # q' \<and> op_text x = Some [if c = 65532 then 32 else c])"
      by (auto simp: remove_image_tags_def)
    from not_merged_delete [OF cur(2) la(3) la(4) this] Inr show ?thesis by simp
  qed
  with no r show ?thesis by simp
qed

lemma not_merged_delete_gen:
  assumes "undo_queue u = (la # xs) # q" "op_text la = Some t" "t \<noteq> []"
    and "(\<exists>la'. undo_queue u' = (la' # xs) # q \<and> op_start la' = op_start la \<and> op_end la' = op_end la) \<or>
         (\<exists>x g q'. undo_queue u' = (x # g) # q' \<and> op_text x = Some [c'])"
  shows "\<not> merged_delete u bw [c] (Inr u')"
  using assms by (auto simp: merged_delete_def g_strconcat_def split: if_splits)

lemma delete_range_new_not_merged:
  assumes q: "undo_queue u = (la # xs) # q" and t: "op_text la = Some t" "t \<noteq> []"
    and q1: "undo_queue u1 = (la1 # xs) # q" "op_start la1 = op_start la" "op_end la1 = op_end la"
    and co: "op_text co = Some [c]"
  shows "\<not> merged_delete u bw [c] (delete_range_new u1 co mrg sp s e)"
proof (cases "delete_range_new u1 co mrg sp s e")
  case (Inl e)
  then show ?thesis by (simp add: merged_delete_def)
next
  case (Inr u')
  from delete_range_new_head [OF Inr] q1 co
  have "(\<exists>la'. undo_queue u' = (la' # xs) # q \<and> op_start la' = op_start la \<and> op_end la' = op_end la) \<or>
       (\<exists>x g q'. undo_queue u' = (x # g) # q' \<and> op_text x = Some [if c = 65532 then 32 else c])"
    by (auto simp: remove_image_tags_def)
  from not_merged_delete_gen [OF q t this] Inr show ?thesis by simp
qed

lemma delete_merge_iff:
  assumes en: "undo_disabled u \<le> 0" "\<not> low_mem u"
    and q: "undo_queue u = (la # xs) # q"
    and la: "op_type la = WP_UNDO_DELETE" "op_text la = Some t" "t \<noteq> []"
    and c: "get_slice (text_buffer u) s e = [c]" "c \<noteq> 10" "e = Suc s"
    and flag: "backspace (delete_range_co (text_buffer u) s e) = deletes_backward (text_buffer u) s"
  shows "merged_delete u (deletes_backward (text_buffer u) s) [c] (record_delete s e u) \<longleftrightarrow>
         (current_op u = UndoHead \<and> mergeable la \<and>
          backspace la = deletes_backward (text_buffer u) s \<and>
          (if deletes_backward (text_buffer u) s then op_start la = int e else op_end la = int s) \<and>
          (g_unichar_isspace c \<or> \<not> last_char_is_space u))"
proof -
  have d: "new_delete_is_backward u = deletes_backward (text_buffer u) s"
    using flag by (simp add: delete_range_co_def new_delete_is_backward_def Let_def)
  show ?thesis
  proof (cases "current_op u = UndoHead \<and> mergeable la")
    case True
    with delete_merge_rule [OF en _ q la(1) _ la(2,3) c] d show ?thesis
      by (simp add: record_delete_def)
  next
    case False
    define co where "co = delete_range_co (text_buffer u) s e"
    have mc: "mergeable co" and tc: "op_text co = Some [c]"
      using c by (simp_all add: co_def delete_range_co_def g_utf8_get_char_def Let_def)
    note nm = delete_range_new_not_merged [OF q la(2,3) _ _ _ tc]
    have "\<not> merged_delete u (deletes_backward (text_buffer u) s) [c] (wp_undo_delete_range True u s e)"
    proof (cases "current_op u")
      case NULL
      with en mc nm [OF q refl refl] show ?thesis
        by (simp add: wp_undo_delete_range_def Let_def co_def)
    next
      case UndoHead
      with False have "\<not> mergeable la" by simp
      with en mc UndoHead q nm [OF q refl refl] show ?thesis
        by (simp add: wp_undo_delete_range_def Let_def deref_current_def co_def)
    next
      case Freed
      with en mc show ?thesis
        by (simp add: wp_undo_delete_range_def Let_def deref_current_def merged_delete_def co_def)
    next
      case RedoHead
      have sq: "\<And>y. undo_queue (store_current u y) = (la # xs) # q"
        using RedoHead q by (simp add: store_current_def split: list.splits)
      have m: "\<And>y sp bw. \<not> merged_delete u bw [c] (Inr ((store_current u y)\<lparr>last_char_is_space := sp\<rparr>))"
        using not_merged_delete_gen [OF q la(2,3), of "(store_current u y)\<lparr>last_char_is_space := sp\<rparr>" for y sp] sq
        by simp
      show ?thesis
      proof (cases "deref_current u")
        case (Inl e)
        with en mc RedoHead show ?thesis
          by (simp add: wp_undo_delete_range_def Let_def merged_delete_def co_def)
      next
        case (Inr lb)
        with en mc RedoHead m nm [OF q refl refl] nm [OF sq refl refl] show ?thesis
          by (simp add: wp_undo_delete_range_def Let_def co_def split: option.splits)
      qed
    qed
    with False show ?thesis by (auto simp: record_delete_def)
  qed
qed

text \<open>
  \<^bold>\<open>C6\<close>, as amended. On an enabled engine, let the most recent operation of the undo
  queue be a Delete operation that holds some text, and let the deletion of a single
  character that is not a newline be recorded with the direction it has (backward when the
  deleted range starts before the cursor). The deletion merges into that operation if and
  only if that operation is the engine's current operation and is marked mergeable, both
  have the same direction, the offsets are contiguous in that direction (backward: the
  new end is the old start; forward: the new start is the old end) and the whitespace rule
  holds (the new character is whitespace or the last recorded character was not).
\<close>

theorem C6_delete_merge:
  assumes "undo_disabled u \<le> 0" "\<not> low_mem u"
    and "undo_queue u = (la # xs) # q"
    and "op_type la = WP_UNDO_DELETE" "op_text la = Some t" "t \<noteq> []"
    and "get_slice (text_buffer u) s e = [c]" "c \<noteq> 10" "e = Suc s"
    and "backspace (delete_range_co (text_buffer u) s e) = deletes_backward (text_buffer u) s"
  shows "merged_delete u (deletes_backward (text_buffer u) s) [c] (record_delete s e u) \<longleftrightarrow>
         (current_op u = UndoHead \<and> mergeable la \<and>
          backspace la = deletes_backward (text_buffer u) s \<and>
          (if deletes_backward (text_buffer u) s then op_start la = int e else op_end la = int s) \<and>
          (g_unichar_isspace c \<or> \<not> last_char_is_space u))"
  using assms by (rule delete_merge_iff)

definition backspaced_b_op :: WPUndoOperation where
  "backspaced_b_op =
     op_zero\<lparr>op_type := WP_UNDO_DELETE, op_start := 1, op_end := 2,
             op_text := Some (ascii ''b''), mergeable := True, backspace := True\<rparr>"

definition backspaced_b :: WPUndo where
  "backspaced_b =
     (wp_undo_new (plain_buffer (ascii ''a'') 1))
       \<lparr>undo_queue := [[backspaced_b_op]], current_op := UndoHead, group := 1\<rparr>"

theorem C6_delete_merge_witness:
  "merged_delete backspaced_b True (ascii ''a'') (record_delete 0 1 backspaced_b)"
proof -
  have h: "undo_disabled backspaced_b \<le> 0" "\<not> low_mem backspaced_b"
    "undo_queue backspaced_b = (backspaced_b_op # []) # []"
    "op_type backspaced_b_op = WP_UNDO_DELETE"
    "op_text backspaced_b_op = Some (ascii ''b'')" "ascii ''b'' \<noteq> []"
    "get_slice (text_buffer backspaced_b) 0 1 = [97]" "(97::nat) \<noteq> 10" "1 = Suc 0"
    "backspace (delete_range_co (text_buffer backspaced_b) 0 1) =
     deletes_backward (text_buffer backspaced_b) 0"
    by (simp_all add: backspaced_b_def backspaced_b_op_def wp_undo_new_def ascii_def
        plain_buffer_def get_slice_def delete_range_co_def deletes_backward_def)
  have b: "deletes_backward (text_buffer backspaced_b) 0" "backspace backspaced_b_op"
    "current_op backspaced_b = UndoHead" "mergeable backspaced_b_op"
    "op_start backspaced_b_op = 1" "\<not> g_unichar_isspace 97" "\<not> last_char_is_space backspaced_b"
    by (simp_all add: backspaced_b_def backspaced_b_op_def wp_undo_new_def plain_buffer_def
        deletes_backward_def g_unichar_isspace_def)
  from C6_delete_merge [OF h] b show ?thesis
    by (simp add: ascii_def)
qed

text \<open>
  C6 as stated fails: with the buffer \<open>" \\n"\<close> and the cursor at its end, two
  backspaces delete the newline and then the space. Both deletions are single characters
  with the same direction, they are contiguous, and the second character is a space; the
  two operations are not merged, because the first one, a newline, is not mergeable.
\<close>

theorem C6_counterexample:
  "stored_texts (run [begin_transaction, host_delete_range 1 2, host_delete_range 0 1, end_transaction]
      (wp_undo_new (plain_buffer [32, 10] 2))) = Inr [[Some [32], Some [10]]]"
  by (simp add: scenario_defs record_defs buffer_defs wp_undo_get_toggled_tags_def
      iter_forward_to_tag_toggle_def)

text \<open>
  Where the stored flag is not the direction: the deletion of "b" from "abcd" with the
  cursor in front of "b" is a forward deletion and is stored as a backward one. The
  forward deletion of "c" that follows is contiguous with it and is not merged; with the
  cursor at offset 0 the same two deletions are merged.
\<close>

lemma forward_deletion_stored_as_backward:
  "\<not> deletes_backward (plain_buffer (ascii ''abcd'') 1) 1 \<and>
   backspace (delete_range_co (plain_buffer (ascii ''abcd'') 1) 1 2) \<and>
   stored_texts (run [begin_transaction, record_delete 1 2, record_delete 2 3, end_transaction]
      (wp_undo_new (plain_buffer (ascii ''abcd'') 1))) = Inr [[Some (ascii ''c''), Some (ascii ''b'')]] \<and>
   stored_texts (run [begin_transaction, record_delete 1 2, record_delete 2 3, end_transaction]
      (wp_undo_new (plain_buffer (ascii ''abcd'') 0))) = Inr [[Some (ascii ''bc'')]]"
  by (simp add: deletes_backward_def scenario_defs record_defs buffer_defs
      wp_undo_get_toggled_tags_def iter_forward_to_tag_toggle_def)

section \<open>Image characters in recorded text (C10)\<close>

lemma remove_image_chars_clean: "65532 \<notin> set (remove_image_chars t)"
  by (induction t) auto

lemma add_queue_text_clean:
  assumes "wp_undo_add_queue u x = Inr u'" "undo_queue u' \<noteq> undo_queue u"
  shows "\<exists>y g q t. undo_queue u' = (y # g) # q \<and>
           (op_text y = None \<or> (op_text y = Some t \<and> 65532 \<notin> set t))"
proof -
  from add_queue_head [OF assms(1)] assms(2) obtain g q where
    "undo_queue u' = (x\<lparr>op_text := remove_image_tags (op_text x)\<rparr> # g) # q" by blast
  then show ?thesis
    by (cases "op_text x") (auto simp: remove_image_tags_def remove_image_chars_clean)
qed

text \<open>
  \<^bold>\<open>C10\<close>. The text of an operation is cleaned of U+FFFC in \<^verbatim>\<open>wp_undo_add_queue\<close> only. A
  single character that merges into the current operation is concatenated before that
  point: after inserting "a" at offset 0, the single character U+FFFC inserted at offset 1
  merges, and the undo queue holds the text "a" followed by U+FFFC.
\<close>

theorem C10_merged_text_keeps_image_char:
  "stored_texts (run [record_insert 0 (ascii ''a''), record_insert 1 [65532]]
      (wp_undo_new empty_buffer)) = Inr [[Some [97, 65532]]]"
  by (simp add: scenario_defs record_defs)

section \<open>The undo level (C3)\<close>

definition set_undo_levels :: "int \<Rightarrow> WPUndo \<Rightarrow> error + WPUndo" where
  "set_undo_levels n u = wp_undo_set_undo_levels u n"

definition insert_transaction :: "nat \<Rightarrow> utf8 \<Rightarrow> WPUndo \<Rightarrow> error + WPUndo" where
  "insert_transaction pos txt = run [begin_transaction, host_insert_text pos txt, end_transaction]"

text \<open>
  \<^bold>\<open>C3\<close>. With the undo level raised to 6 and six transactions recorded, lowering the level
  to 5 has to evict the oldest group of the undo queue; the setter looks the node up in the
  redo queue, which is empty, and dereferences NULL.
\<close>

theorem C3_lowering_level_dereferences_null:
  "run [set_undo_levels 6,
        insert_transaction 0 (ascii ''ab''), insert_transaction 2 (ascii ''cd''),
        insert_transaction 4 (ascii ''ef''), insert_transaction 6 (ascii ''gh''),
        insert_transaction 8 (ascii ''ij''), insert_transaction 10 (ascii ''kl''),
        set_undo_levels 5] (wp_undo_new empty_buffer) = Inl NullDeref"
  by (simp add: set_undo_levels_def insert_transaction_def wp_undo_set_undo_levels_def
      set_undo_levels_trim_undo_def scenario_defs record_defs buffer_defs)

section \<open>Exhausted memory while recording (C9)\<close>

text \<open>The recording of an insertion when no memory is left for the new operation.\<close>

definition exhausted_record_insert :: "nat \<Rightarrow> utf8 \<Rightarrow> WPUndo \<Rightarrow> error + WPUndo" where
  "exhausted_record_insert pos txt u = wp_undo_insert_text False True u pos txt (strlen txt)"

text \<open>
  \<^bold>\<open>C9\<close>. In an open transaction that has recorded the insertion "ab", memory is
  exhausted when a second insertion is recorded: \<^verbatim>\<open>g_new0\<close> ends the program. The test
  of its result that follows in \<^verbatim>\<open>wp_undo_insert_text\<close> is never reached with NULL, so
  no notification is emitted, no group is discarded and no flag is set.
\<close>

theorem C9_exhausted_memory_ends_the_program:
  "run [begin_transaction, record_insert 0 (ascii ''ab''), exhausted_record_insert 2 (ascii ''cd'')]
     (wp_undo_new empty_buffer) = Inl Aborted"
  by (simp add: exhausted_record_insert_def scenario_defs record_defs)

section \<open>Mergeable operations (C7)\<close>

text \<open>
  What the engine guarantees about the flag: a mergeable operation is a selection change,
  or an insertion or deletion whose text holds no newline.
\<close>

definition mergeable_ok :: "WPUndoOperation \<Rightarrow> bool" where
  "mergeable_ok x =
     (mergeable x \<longrightarrow>
        op_type x = WP_UNDO_SELECT \<or>
        ((op_type x = WP_UNDO_INSERT \<or> op_type x = WP_UNDO_DELETE) \<and>
         (case op_text x of None \<Rightarrow> False | Some t \<Rightarrow> 10 \<notin> set t)))"

definition queue_ok :: "WPUndoOperation list list \<Rightarrow> bool" where
  "queue_ok q = (\<forall>g \<in> set q. \<forall>x \<in> set g. mergeable_ok x)"

definition queues_ok :: "WPUndo \<Rightarrow> bool" where
  "queues_ok u = (queue_ok (undo_queue u) \<and> queue_ok (redo_queue u))"

lemma queue_ok_simps [simp]:
  "queue_ok []"
  "queue_ok (g # q) = ((\<forall>x \<in> set g. mergeable_ok x) \<and> queue_ok q)"
  by (auto simp: queue_ok_def)

lemma queue_ok_take: "queue_ok q \<Longrightarrow> queue_ok (take n q)"
  by (auto simp: queue_ok_def dest: in_set_takeD)

lemma queue_ok_tl: "queue_ok q \<Longrightarrow> queue_ok (tl q)"
  by (cases q) auto

lemma queues_ok_cong:
  "undo_queue u' = undo_queue u \<Longrightarrow> redo_queue u' = redo_queue u \<Longrightarrow> queues_ok u' = queues_ok u"
  by (simp add: queues_ok_def)

lemma mergeable_ok_unmerge [simp]: "mergeable_ok (x\<lparr>mergeable := False\<rparr>)"
  by (simp add: mergeable_ok_def)

lemma send_signals_redo [simp]: "redo_queue (wp_undo_send_signals u) = redo_queue u"
  by (simp add: wp_undo_send_signals_def Let_def)

lemma send_signals_ok [simp]: "queues_ok (wp_undo_send_signals u) = queues_ok u"
  by (simp add: queues_ok_def)

lemma deref_current_ok:
  "deref_current u = Inr x \<Longrightarrow> queues_ok u \<Longrightarrow> mergeable_ok x"
  by (auto simp: deref_current_def queues_ok_def split: OpPtr.splits list.splits)

lemma store_current_ok:
  "queues_ok u \<Longrightarrow> mergeable_ok x \<Longrightarrow> queues_ok (store_current u x)"
  by (auto simp: store_current_def queues_ok_def split: OpPtr.splits list.splits)

lemma reset_mergeable_ok:
  "wp_undo_reset_mergeable u = Inr u' \<Longrightarrow> queues_ok u \<Longrightarrow> queues_ok u'"
  by (auto simp: wp_undo_reset_mergeable_def queues_ok_def store_current_def
      split: if_splits sum.splits OpPtr.splits list.splits)

lemma emit_no_memory_ok: "queues_ok u \<Longrightarrow> queues_ok (emit_no_memory u)"
  by (auto simp: emit_no_memory_def Let_def queues_ok_def undo_head_freed_def queue_ok_tl)

lemma evict_oldest_ok: "queues_ok u \<Longrightarrow> queues_ok (evict_oldest first u)"
  by (auto simp: evict_oldest_def Let_def queues_ok_def queue_ok_take)

lemma link_current_op_ok:
  "link_current_op u x = Inr u' \<Longrightarrow> queues_ok u \<Longrightarrow> mergeable_ok x \<Longrightarrow> queues_ok u'"
  by (auto simp: link_current_op_def queues_ok_def split: OpPtr.splits list.splits)

lemma mergeable_ok_clean:
  "mergeable_ok x \<Longrightarrow> mergeable_ok (x\<lparr>op_text := remove_image_tags (op_text x)\<rparr>)"
proof -
  have "10 \<notin> set t \<Longrightarrow> 10 \<notin> set (remove_image_chars t)" for t
    by (induction t) auto
  then show "mergeable_ok x \<Longrightarrow> mergeable_ok (x\<lparr>op_text := remove_image_tags (op_text x)\<rparr>)"
    by (auto simp: mergeable_ok_def remove_image_tags_def split: option.splits)
qed

lemma add_queue_ok:
  assumes "wp_undo_add_queue u x = Inr u'" "queues_ok u" "mergeable_ok x"
  shows "queues_ok u'"
proof (cases "disable_this_group u")
  case True
  with assms show ?thesis by (simp add: wp_undo_add_queue_def Let_def)
next
  case False
  from assms(1) False obtain u1 u2 where
    u1: "u1 = u \<or> wp_undo_reset_mergeable (u\<lparr>first_in_group := False\<rparr>) = Inr u1" and
    l: "link_current_op u1 (x\<lparr>op_text := remove_image_tags (op_text x)\<rparr>) = Inr u2" and
    r: "u' = wp_undo_send_signals (evict_oldest (first_in_group u) (u2\<lparr>redo_queue := []\<rparr>))"
    by (simp add: wp_undo_add_queue_def Let_def split: sum.splits if_splits) fastforce+
  have "queues_ok (u\<lparr>first_in_group := False\<rparr>)"
    using assms(2) by (simp add: queues_ok_def)
  with u1 assms(2) have "queues_ok u1"
    using reset_mergeable_ok by blast
  from link_current_op_ok [OF l this mergeable_ok_clean [OF assms(3)]]
  have "queues_ok (u2\<lparr>redo_queue := []\<rparr>)"
    by (simp add: queues_ok_def)
  then show ?thesis
    unfolding r by (simp add: evict_oldest_ok)
qed


lemma mergeable_ok_fields:
  "op_type y = op_type x \<Longrightarrow> mergeable y = mergeable x \<Longrightarrow> op_text y = op_text x \<Longrightarrow>
   mergeable_ok y = mergeable_ok x"
  by (simp add: mergeable_ok_def)

lemma short_text_no_newline:
  "length txt \<le> 1 \<Longrightarrow> g_utf8_get_char txt \<noteq> 10 \<Longrightarrow> 10 \<notin> set txt"
  by (cases "txt") (auto simp: g_utf8_get_char_def)

lemma insert_text_new_ok:
  assumes "insert_text_new op_ok dup_ok u co txt sp = Inr u'" "queues_ok u"
    and "mergeable co \<longrightarrow> 10 \<notin> set txt"
  shows "queues_ok u'"
proof -
  have ok: "queues_ok (u\<lparr>last_char_is_space := sp\<rparr>)"
    using assms(2) by (simp add: queues_ok_def)
  have m: "mergeable_ok (co\<lparr>op_type := WP_UNDO_INSERT, op_text := Some txt\<rparr>)"
    using assms(3) by (simp add: mergeable_ok_def)
  show ?thesis
  proof (cases op_ok)
    case False
    with assms(1) have "emit_no_memory u = u'"
      by (simp add: insert_text_new_def)
    then show ?thesis using emit_no_memory_ok [OF assms(2)] by blast
  next
    case op: True
    show ?thesis
    proof (cases dup_ok)
      case False
      with op assms(1) have "emit_no_memory (u\<lparr>last_char_is_space := sp\<rparr>) = u'"
        by (simp add: insert_text_new_def)
      then show ?thesis using emit_no_memory_ok [OF ok] by blast
    next
      case True
      with op assms(1) have "wp_undo_add_queue (u\<lparr>last_char_is_space := sp\<rparr>)
         (co\<lparr>op_type := WP_UNDO_INSERT, op_text := Some txt\<rparr>) = Inr u'"
        by (simp add: insert_text_new_def)
      then show ?thesis using add_queue_ok ok m by blast
    qed
  qed
qed

lemma queues_ok_lcis [simp]: "queues_ok (u\<lparr>last_char_is_space := v\<rparr>) = queues_ok u"
  by (simp add: queues_ok_def)

lemma queues_ok_hash [simp]: "queues_ok (u\<lparr>hash := v\<rparr>) = queues_ok u"
  by (simp add: queues_ok_def)

lemma merged_insert_ok:
  "mergeable_ok la \<Longrightarrow> mergeable la \<Longrightarrow> op_type la = WP_UNDO_INSERT \<Longrightarrow> 10 \<notin> set txt \<Longrightarrow>
   mergeable_ok (la\<lparr>op_text := g_strconcat (op_text la) (Some txt), op_tags := tg, op_end := e\<rparr>)"
  by (auto simp: mergeable_ok_def g_strconcat_def split: option.splits)

lemma insert_text_ok:
  assumes "wp_undo_insert_text op_ok dup_ok u pos txt len = Inr u'" "queues_ok u"
  shows "queues_ok u'"
  using assms
  apply (simp add: wp_undo_insert_text_def Let_def split: if_splits sum.splits)
  subgoal for la
    by (auto intro!: store_current_ok merged_insert_ok dest: deref_current_ok
        simp: short_text_no_newline)
  subgoal by (erule insert_text_new_ok) (simp_all add: store_current_ok short_text_no_newline)
  subgoal by (erule insert_text_new_ok) (simp_all add: short_text_no_newline)
  subgoal by (erule insert_text_new_ok) (simp_all add: short_text_no_newline)
  done


lemma merged_delete_ok:
  "mergeable_ok la \<Longrightarrow> mergeable la \<Longrightarrow> op_type la = WP_UNDO_DELETE \<Longrightarrow> 10 \<notin> set tx \<Longrightarrow>
   mergeable_ok (la\<lparr>op_text := g_strconcat (Some tx) (op_text la), op_start := a, op_tags := tg,
                     mergeable := m\<rparr>)"
  "mergeable_ok la \<Longrightarrow> mergeable la \<Longrightarrow> op_type la = WP_UNDO_DELETE \<Longrightarrow> 10 \<notin> set tx \<Longrightarrow>
   g_strconcat (op_text la) (Some tx) = Some str \<Longrightarrow>
   mergeable_ok (la\<lparr>op_text := Some str, op_end := a, op_tags := tg, mergeable := m\<rparr>)"
  by (auto simp: mergeable_ok_def g_strconcat_def split: option.splits)

lemma get_toggled_tags_redo [simp]:
  "redo_queue (fst (wp_undo_get_toggled_tags u s e)) = redo_queue u"
  by (simp add: wp_undo_get_toggled_tags_def Let_def split: prod.splits)

lemma get_toggled_tags_ok [simp]:
  "queues_ok (fst (wp_undo_get_toggled_tags u s e)) = queues_ok u"
  by (simp add: queues_ok_def)

lemma delete_range_new_ok:
  assumes "delete_range_new u co mrg sp s e = Inr u'" "queues_ok u"
    and "mrg \<longrightarrow> (\<exists>t. op_text co = Some t \<and> 10 \<notin> set t)"
  shows "queues_ok u'"
proof -
  obtain u1 tags where g: "wp_undo_get_toggled_tags u s e = (u1, tags)"
    by (cases "wp_undo_get_toggled_tags u s e")
  then have "queues_ok u1"
    using get_toggled_tags_ok [of u s e] assms(2) by simp
  moreover from assms(1) g have "wp_undo_add_queue (u1\<lparr>last_char_is_space := sp\<rparr>)
            (co\<lparr>op_type := WP_UNDO_DELETE, mergeable := mrg, op_tags := tags\<rparr>) = Inr u'"
    by (simp add: delete_range_new_def)
  moreover have "mergeable_ok (co\<lparr>op_type := WP_UNDO_DELETE, mergeable := mrg, op_tags := tags\<rparr>)"
    using assms(3) by (auto simp: mergeable_ok_def)
  ultimately show ?thesis
    using add_queue_ok [of "u1\<lparr>last_char_is_space := sp\<rparr>"] by simp
qed

lemma short_slice_no_newline:
  "s \<le> e \<Longrightarrow> int e - int s \<le> 1 \<Longrightarrow> g_utf8_get_char (get_slice b s e) \<noteq> 10 \<Longrightarrow>
   10 \<notin> set (get_slice b s e)"
  by (rule short_text_no_newline) (simp_all add: get_slice_def)

lemma delete_range_ok:
  assumes "wp_undo_delete_range slice_ok u s e = Inr u'" "queues_ok u" "s \<le> e"
  shows "queues_ok u'"
  using assms
  apply (simp add: wp_undo_delete_range_def Let_def split: if_splits sum.splits option.splits)
  subgoal for la
    apply (drule sym [of _ u'])
    apply simp
    apply (rule store_current_ok, assumption)
    apply (rule merged_delete_ok(1))
    apply (simp_all add: deref_current_ok short_slice_no_newline)
    done
  subgoal by (erule delete_range_new_ok) (simp_all add: store_current_ok short_slice_no_newline)
  subgoal by (erule delete_range_new_ok) (simp_all add: store_current_ok short_slice_no_newline)
  subgoal by (erule delete_range_new_ok) (simp_all add: store_current_ok short_slice_no_newline)
  subgoal for la str
    apply (drule sym [of _ u'])
    apply simp
    apply (rule store_current_ok, assumption)
    apply (rule merged_delete_ok(2) [where tx = "get_slice (text_buffer u) s e"])
    apply (simp_all add: deref_current_ok short_slice_no_newline)
    done
  subgoal by (erule delete_range_new_ok) (simp_all add: store_current_ok short_slice_no_newline)
  subgoal by (erule delete_range_new_ok) (simp_all add: store_current_ok short_slice_no_newline)
  subgoal by (erule delete_range_new_ok) (simp_all add: store_current_ok short_slice_no_newline)
  subgoal by (erule delete_range_new_ok) (simp_all add: store_current_ok short_slice_no_newline)
  done

lemma mergeable_ok_tags [simp]:
  "mergeable_ok (x\<lparr>op_tags := tg\<rparr>) = mergeable_ok x"
  "mergeable_ok (x\<lparr>orig_tags := tg\<rparr>) = mergeable_ok x"
  "mergeable_ok (x\<lparr>sel_start := a, sel_end := b\<rparr>) = mergeable_ok x"
  by (simp_all add: mergeable_ok_def)

lemma store_current_okE:
  "store_current u x = u' \<Longrightarrow> queues_ok u \<Longrightarrow> mergeable_ok x \<Longrightarrow> queues_ok u'"
  using store_current_ok by blast

lemma emit_no_memory_okE:
  "emit_no_memory u = u' \<Longrightarrow> queues_ok u \<Longrightarrow> queues_ok u'"
  using emit_no_memory_ok by blast

lemma get_toggled_tags_okE:
  "wp_undo_get_toggled_tags u s e = (u1, tags) \<Longrightarrow> queues_ok u \<Longrightarrow> queues_ok u1"
  using get_toggled_tags_ok [of u s e] by simp

lemmas ok_elims = store_current_okE emit_no_memory_okE add_queue_ok

lemma apply_tag_ok:
  assumes "wp_undo_apply_tag op_ok u s e tg enable = Inr u'" "queues_ok u"
  shows "queues_ok u'"
  using assms
  apply (simp add: wp_undo_apply_tag_def split: if_splits sum.splits WPUndoType.splits prod.splits)
        apply (erule ok_elims; (auto simp: mergeable_ok_def dest: deref_current_ok get_toggled_tags_okE)[1])+
  done

lemma simple_justification_ok:
  assumes "wp_undo_simple_justification op_ok u s e orig tg = Inr u'" "queues_ok u"
  shows "queues_ok u'"
  using assms
  apply (simp add: wp_undo_simple_justification_def split: if_splits)
        apply (erule ok_elims; (auto simp: mergeable_ok_def dest: deref_current_ok get_toggled_tags_okE)[1])+
  done

lemma selection_new_ok:
  assumes "selection_new op_ok u a b = Inr u'" "queues_ok u"
  shows "queues_ok u'"
  using assms
  apply (simp add: selection_new_def split: if_splits)
        apply (erule ok_elims; (auto simp: mergeable_ok_def dest: deref_current_ok get_toggled_tags_okE)[1])+
  done


lemma selection_changed_ok:
  assumes "wp_undo_selection_changed op_ok u s e = Inr u'" "queues_ok u"
  shows "queues_ok u'"
  using assms
  apply (simp add: wp_undo_selection_changed_def Let_def split: if_splits sum.splits)
        apply (erule ok_elims selection_new_ok; (auto simp: mergeable_ok_def store_current_ok dest: deref_current_ok)[1])+
  done

lemma format_changed_ok:
  assumes "wp_undo_format_changed op_ok u rich = Inr u'" "queues_ok u"
  shows "queues_ok u'"
  using assms
  apply (simp add: wp_undo_format_changed_def split: if_splits prod.splits)
        apply (erule ok_elims; (auto simp: mergeable_ok_def dest: deref_current_ok get_toggled_tags_okE)[1])+
  done

lemma last_line_justify_ok:
  assumes "wp_undo_last_line_justify op_ok u a b = Inr u'" "queues_ok u"
  shows "queues_ok u'"
  using assms
  apply (simp add: wp_undo_last_line_justify_def split: if_splits)
        apply (erule ok_elims; (auto simp: mergeable_ok_def dest: deref_current_ok get_toggled_tags_okE)[1])+
  done

lemma reset_ok:
  assumes "wp_undo_reset u = Inr u'"
  shows "queues_ok u'"
  using assms by (auto simp: wp_undo_reset_def queues_ok_def split: sum.splits)

lemma set_low_memory_ok:
  assumes "wp_undo_set_low_memory u v = Inr u'" "queues_ok u"
  shows "queues_ok u'"
proof (cases v)
  case True
  with assms(1) have "wp_undo_reset (u\<lparr>low_mem := v\<rparr>) = Inr u'"
    by (simp add: wp_undo_set_low_memory_def Let_def)
  then show ?thesis by (rule reset_ok)
next
  case False
  with assms(1) have "u\<lparr>low_mem := v\<rparr> = u'"
    by (simp add: wp_undo_set_low_memory_def Let_def)
  with assms(2) show ?thesis by (auto simp: queues_ok_def)
qed

lemma truncate_after_ok: "truncate_after q n = Inr q' \<Longrightarrow> queue_ok q \<Longrightarrow> queue_ok q'"
  by (auto simp: truncate_after_def queue_ok_take split: if_splits)

lemma set_undo_levels_trim_undo_ok:
  assumes "set_undo_levels_trim_undo u sz = Inr u'" "queues_ok u"
  shows "queues_ok u'"
  using assms
  by (auto simp: set_undo_levels_trim_undo_def queues_ok_def undo_head_freed_def
      split: if_splits sum.splits dest: truncate_after_ok)

lemma queues_ok_redo_update:
  "queues_ok u \<Longrightarrow> queue_ok q \<Longrightarrow> queues_ok (u\<lparr>redo_queue := q\<rparr>)"
  by (simp add: queues_ok_def)

lemma redo_head_freed_ok [simp]: "queues_ok (redo_head_freed u) = queues_ok u"
  by (simp add: redo_head_freed_def queues_ok_def)

lemma queues_ok_level [simp]: "queues_ok (u\<lparr>max_undo_level := n\<rparr>) = queues_ok u"
  by (simp add: queues_ok_def)

lemma set_undo_levels_ok:
  assumes "wp_undo_set_undo_levels u n = Inr u'" "queues_ok u"
  shows "queues_ok u'"
  using assms
  apply (simp add: wp_undo_set_undo_levels_def Let_def split: if_splits sum.splits)
  subgoal
    apply (drule sym [of _ u'])
    apply simp
    apply (erule set_undo_levels_trim_undo_ok)
    apply (rule queues_ok_redo_update, assumption)
    apply (erule truncate_after_ok)
    apply (simp add: queues_ok_def)
    done
  subgoal
    apply (drule sym [of _ u'])
    apply simp
    apply (erule set_undo_levels_trim_undo_ok)
    apply (rule queues_ok_redo_update)
     apply simp_all
    done
  subgoal
    apply (drule sym [of _ u'])
    apply simp
    apply (erule set_undo_levels_trim_undo_ok)
    apply (rule queues_ok_redo_update)
     apply simp_all
    done
  subgoal
    apply (drule sym [of _ u'])
    apply simp
    done
  done


text \<open>Replaying changes the buffer and the signal log of the engine, and the saved tags
  of an operation, nothing else.\<close>

definition same_engine :: "WPUndo \<Rightarrow> WPUndo \<Rightarrow> bool" where
  "same_engine u u1 = (\<exists>b em. u1 = u\<lparr>text_buffer := b, emitted := em\<rparr>)"

definition same_operation :: "WPUndoOperation \<Rightarrow> WPUndoOperation \<Rightarrow> bool" where
  "same_operation x x1 = (\<exists>tg og. x1 = x\<lparr>op_tags := tg, orig_tags := og\<rparr>)"

lemma same_engine_refl [simp]: "same_engine u u"
  unfolding same_engine_def by (rule exI [of _ "text_buffer u"], rule exI [of _ "emitted u"]) simp

lemma same_operation_refl [simp]: "same_operation x x"
  unfolding same_operation_def by (rule exI [of _ "op_tags x"], rule exI [of _ "orig_tags x"]) simp

lemma same_engine_trans: "same_engine u u1 \<Longrightarrow> same_engine u1 u2 \<Longrightarrow> same_engine u u2"
  unfolding same_engine_def by (elim exE, simp, intro exI, rule refl)

lemma same_engine_fields:
  assumes "same_engine u u1"
  shows "undo_queue u1 = undo_queue u" "redo_queue u1 = redo_queue u" "current_op u1 = current_op u"
    "undo_disabled u1 = undo_disabled u" "low_mem u1 = low_mem u" "group u1 = group u"
    "undo_queue_len u1 = undo_queue_len u" "max_undo_level u1 = max_undo_level u"
    "first_in_group u1 = first_in_group u" "disable_this_group u1 = disable_this_group u"
    "last_char_is_space u1 = last_char_is_space u" "undo_sent u1 = undo_sent u"
    "redo_sent u1 = redo_sent u" "hash u1 = hash u"
  using assms by (auto simp: same_engine_def)

lemma same_operation_fields:
  assumes "same_operation x x1"
  shows "op_type x1 = op_type x" "op_start x1 = op_start x" "op_end x1 = op_end x"
    "op_text x1 = op_text x" "mergeable x1 = mergeable x" "backspace x1 = backspace x"
    "rich_text x1 = rich_text x" "sel_start x1 = sel_start x" "sel_end x1 = sel_end x"
    "orig_tag x1 = orig_tag x" "op_tag x1 = op_tag x"
    "old_line_justify x1 = old_line_justify x" "new_line_justify x1 = new_line_justify x"
  using assms by (auto simp: same_operation_def)

lemma same_engine_simps [simp]:
  "same_engine u (set_buffer u b)"
  "same_engine u (u\<lparr>emitted := em\<rparr>)"
  "same_engine u ((set_buffer u b)\<lparr>emitted := em\<rparr>)"
  unfolding same_engine_def set_buffer_def
    apply (rule exI [of _ b], rule exI [of _ "emitted u"], simp)
   apply (rule exI [of _ "text_buffer u"], rule exI [of _ em], simp)
  apply (rule exI [of _ b], rule exI [of _ em], simp)
  done

lemma same_operation_simps [simp]:
  "same_operation x (x\<lparr>op_tags := tg\<rparr>)"
  "same_operation x (x\<lparr>orig_tags := og\<rparr>)"
  unfolding same_operation_def
   apply (rule exI [of _ tg], rule exI [of _ "orig_tags x"], simp)
  apply (rule exI [of _ "op_tags x"], rule exI [of _ og], simp)
  done

lemma undo_operation_frame:
  "undo_operation u pcp x = Inr (u1, pcp1, x1) \<Longrightarrow> same_engine u u1 \<and> same_operation x x1"
  by (auto simp: undo_operation_def Let_def
      split: WPUndoType.splits option.splits prod.splits if_splits)

lemma redo_operation_frame:
  "redo_operation u pcp x = Inr (u1, pcp1, x1) \<Longrightarrow> same_engine u u1 \<and> same_operation x x1"
  by (auto simp: redo_operation_def Let_def
      split: WPUndoType.splits option.splits prod.splits if_splits)


lemma replay_loop_frame:
  assumes "\<And>u pcp x u1 pcp1 x1. f u pcp x = Inr (u1, pcp1, x1) \<Longrightarrow> same_engine u u1 \<and> same_operation x x1"
  shows "replay_loop f u pcp xs = Inr (u1, pcp1, xs1) \<Longrightarrow>
         same_engine u u1 \<and> list_all2 same_operation xs xs1"
proof (induction xs arbitrary: u pcp u1 pcp1 xs1)
  case Nil
  then show ?case by simp
next
  case (Cons x xs)
  from Cons.prems obtain ua pa xa ub pb xsb where
    a: "f u pcp x = Inr (ua, pa, xa)" and b: "replay_loop f ua pa xs = Inr (ub, pb, xsb)"
    and c: "u1 = ub" "xs1 = xa # xsb"
    by (auto split: sum.splits prod.splits)
  from assms [OF a] Cons.IH [OF b] c show ?case
    by (auto intro: same_engine_trans)
qed

lemma mergeable_ok_same: "same_operation x x1 \<Longrightarrow> mergeable_ok x1 = mergeable_ok x"
  by (auto simp: same_operation_def mergeable_ok_def)

lemma group_ok_same:
  "list_all2 same_operation xs xs1 \<Longrightarrow> (\<forall>x \<in> set xs1. mergeable_ok x) = (\<forall>x \<in> set xs. mergeable_ok x)"
  by (induction rule: list_all2_induct) (auto simp: mergeable_ok_same)


lemma place_proposed_cursor_queues [simp]:
  "undo_queue (place_proposed_cursor u pcp) = undo_queue u"
  "redo_queue (place_proposed_cursor u pcp) = redo_queue u"
  by (simp_all add: place_proposed_cursor_def set_buffer_def)

lemma thaw_queues [simp]:
  "undo_queue (wp_undo_thaw u) = undo_queue u" "redo_queue (wp_undo_thaw u) = redo_queue u"
  "undo_queue (wp_undo_freeze u) = undo_queue u" "redo_queue (wp_undo_freeze u) = redo_queue u"
  by (simp_all add: wp_undo_thaw_def wp_undo_freeze_def)

lemma undo_ok:
  assumes "wp_undo_undo u = Inr u'" "queues_ok u"
  shows "queues_ok u'"
proof (cases "undo_queue u")
  case Nil
  with assms show ?thesis by (simp add: wp_undo_undo_def)
next
  case (Cons lact rest)
  show ?thesis
  proof (cases "low_mem u")
    case True
    with Cons assms show ?thesis by (simp add: wp_undo_undo_def)
  next
    case False
    define u2 where "u2 = (wp_undo_freeze u)\<lparr>undo_queue := rest,
        redo_queue := lact # redo_queue (wp_undo_freeze u),
        undo_queue_len := undo_queue_len (wp_undo_freeze u) - 1,
        current_op := (if current_op (wp_undo_freeze u) = UndoHead then RedoHead
                       else current_op (wp_undo_freeze u))\<rparr>"
    have q2: "undo_queue u2 = rest" "redo_queue u2 = lact # redo_queue u"
      by (simp_all add: u2_def)
    from assms(1) Cons False obtain u3 pcp ops where
      rl: "replay_loop undo_operation u2 (- 1) lact = Inr (u3, pcp, ops)"
      by (cases "replay_loop undo_operation u2 (- 1) lact")
        (auto simp: wp_undo_undo_def Let_def u2_def)
    with assms(1) Cons False obtain u6 where
      rm: "wp_undo_reset_mergeable (wp_undo_thaw (place_proposed_cursor
             (u3\<lparr>redo_queue := ops # tl (redo_queue u3)\<rparr>) pcp)) = Inr u6" and
      u': "u' = wp_undo_send_signals u6"
      by (auto simp: wp_undo_undo_def Let_def u2_def split: sum.splits)
    from replay_loop_frame [OF undo_operation_frame rl]
    have f: "same_engine u2 u3" "list_all2 same_operation lact ops" by simp_all
    from assms(2) Cons have "queue_ok rest" "\<forall>x \<in> set lact. mergeable_ok x" "queue_ok (redo_queue u)"
      by (simp_all add: queues_ok_def)
    with f q2 have "queues_ok (wp_undo_thaw (place_proposed_cursor
             (u3\<lparr>redo_queue := ops # tl (redo_queue u3)\<rparr>) pcp))"
      by (simp add: queues_ok_def same_engine_fields group_ok_same)
    from reset_mergeable_ok [OF rm this] show ?thesis
      by (simp add: u')
  qed
qed

lemma redo_ok:
  assumes "wp_undo_redo u = Inr u'" "queues_ok u"
  shows "queues_ok u'"
proof (cases "redo_queue u")
  case Nil
  with assms show ?thesis by (simp add: wp_undo_redo_def)
next
  case (Cons lact rest)
  show ?thesis
  proof (cases "low_mem u")
    case True
    with Cons assms show ?thesis by (simp add: wp_undo_redo_def)
  next
    case False
    define u2 where "u2 = (wp_undo_freeze u)\<lparr>redo_queue := rest,
        undo_queue := lact # undo_queue (wp_undo_freeze u),
        undo_queue_len := undo_queue_len (wp_undo_freeze u) + 1\<rparr>"
    have q2: "redo_queue u2 = rest" "undo_queue u2 = lact # undo_queue u"
      by (simp_all add: u2_def)
    from assms(1) Cons False obtain u3 pcp ops where
      rl: "replay_loop redo_operation u2 (- 1) (rev lact) = Inr (u3, pcp, ops)"
      by (cases "replay_loop redo_operation u2 (- 1) (rev lact)")
        (auto simp: wp_undo_redo_def Let_def u2_def)
    with assms(1) Cons False obtain u6 where
      rm: "wp_undo_reset_mergeable (wp_undo_thaw (place_proposed_cursor
             (u3\<lparr>undo_queue := group_after_reverse ops # tl (undo_queue u3),
                 current_op := (if lact = [] then current_op u3 else NULL)\<rparr>) pcp)) = Inr u6" and
      u': "u' = wp_undo_send_signals u6"
      by (auto simp: wp_undo_redo_def Let_def u2_def split: sum.splits)
    from replay_loop_frame [OF redo_operation_frame rl]
    have f: "same_engine u2 u3" "list_all2 same_operation (rev lact) ops" by simp_all
    from assms(2) Cons have "queue_ok rest" "\<forall>x \<in> set lact. mergeable_ok x" "queue_ok (undo_queue u)"
      by (simp_all add: queues_ok_def)
    moreover from group_ok_same [OF f(2)] this(2) have "\<forall>x \<in> set ops. mergeable_ok x"
      by simp
    then have "\<forall>x \<in> set (group_after_reverse ops). mergeable_ok x"
      by (cases ops) (auto simp: group_after_reverse_def)
    ultimately have "queues_ok (wp_undo_thaw (place_proposed_cursor
             (u3\<lparr>undo_queue := group_after_reverse ops # tl (undo_queue u3),
                 current_op := (if lact = [] then current_op u3 else NULL)\<rparr>) pcp))"
      using f(1) q2 by (simp add: queues_ok_def same_engine_fields)
    from reset_mergeable_ok [OF rm this] show ?thesis
      by (simp add: u')
  qed
qed


text \<open>
  The calls a host can make on the engine: the functions of \<^verbatim>\<open>wpundo.h\<close> and the two
  properties. A deletion is given by its start and its length, since GtkTextBuffer hands
  the iterators over in order. \<open>HostBuffer\<close> stands for any change the host makes to the
  buffer between two calls.
\<close>

datatype api_call =
    StartGroup
  | EndGroup
  | Freeze
  | Thaw
  | InsertText bool bool nat utf8 int
  | DeleteRange bool nat nat
  | ApplyTag bool nat nat "GtkTextTag option" bool
  | SimpleJustification bool nat nat "GtkTextTag option" "GtkTextTag option"
  | SelectionChanged bool nat nat
  | FormatChanged bool bool
  | LastLineJustify bool int int
  | ResetMergeable
  | Reset
  | SetUndoLevels int
  | SetLowMemory bool
  | Undo
  | Redo
  | HostBuffer GtkTextBuffer

fun api :: "api_call \<Rightarrow> WPUndo \<Rightarrow> error + WPUndo" where
  "api StartGroup u = Inr (wp_undo_start_group u)"
| "api EndGroup u = Inr (wp_undo_end_group u)"
| "api Freeze u = Inr (wp_undo_freeze u)"
| "api Thaw u = Inr (wp_undo_thaw u)"
| "api (InsertText op_ok dup_ok pos str len) u = wp_undo_insert_text op_ok dup_ok u pos str len"
| "api (DeleteRange slice_ok start n) u = wp_undo_delete_range slice_ok u start (start + n)"
| "api (ApplyTag op_ok s e tg enable) u = wp_undo_apply_tag op_ok u s e tg enable"
| "api (SimpleJustification op_ok s e orig tg) u = wp_undo_simple_justification op_ok u s e orig tg"
| "api (SelectionChanged op_ok s e) u = wp_undo_selection_changed op_ok u s e"
| "api (FormatChanged op_ok rich) u = wp_undo_format_changed op_ok u rich"
| "api (LastLineJustify op_ok old_j new_j) u = wp_undo_last_line_justify op_ok u old_j new_j"
| "api ResetMergeable u = wp_undo_reset_mergeable u"
| "api Reset u = wp_undo_reset u"
| "api (SetUndoLevels n) u = wp_undo_set_undo_levels u n"
| "api (SetLowMemory v) u = wp_undo_set_low_memory u v"
| "api Undo u = wp_undo_undo u"
| "api Redo u = wp_undo_redo u"
| "api (HostBuffer b) u = Inr (set_buffer u b)"

lemma api_ok:
  assumes "api c u = Inr u'" "queues_ok u"
  shows "queues_ok u'"
proof (cases c)
  case StartGroup
  with assms show ?thesis by (auto simp: wp_undo_start_group_def Let_def queues_ok_def)
next
  case EndGroup
  with assms show ?thesis by (auto simp: wp_undo_end_group_def Let_def queues_ok_def)
next
  case Freeze
  with assms show ?thesis by (auto simp: queues_ok_def)
next
  case Thaw
  with assms show ?thesis by (auto simp: queues_ok_def)
next
  case (InsertText a b pos str len)
  with assms show ?thesis using insert_text_ok by simp
next
  case (DeleteRange a s n)
  with assms show ?thesis using delete_range_ok [of a u s "s + n" u'] by simp
next
  case (ApplyTag a s e tg en)
  with assms show ?thesis using apply_tag_ok by simp
next
  case (SimpleJustification a s e orig tg)
  with assms show ?thesis using simple_justification_ok by simp
next
  case (SelectionChanged a s e)
  with assms show ?thesis using selection_changed_ok by simp
next
  case (FormatChanged a rich)
  with assms show ?thesis using format_changed_ok by simp
next
  case (LastLineJustify a o1 n1)
  with assms show ?thesis using last_line_justify_ok by simp
next
  case ResetMergeable
  with assms show ?thesis using reset_mergeable_ok by simp
next
  case Reset
  with assms show ?thesis using reset_ok by simp
next
  case (SetUndoLevels n)
  with assms show ?thesis using set_undo_levels_ok by simp
next
  case (SetLowMemory v)
  with assms show ?thesis using set_low_memory_ok by simp
next
  case Undo
  with assms show ?thesis using undo_ok by simp
next
  case Redo
  with assms show ?thesis using redo_ok by simp
next
  case (HostBuffer b)
  with assms show ?thesis by (auto simp: set_buffer_def queues_ok_def)
qed

lemma run_api_ok:
  "run (map api cs) u = Inr u' \<Longrightarrow> queues_ok u \<Longrightarrow> queues_ok u'"
proof (induction cs arbitrary: u)
  case Nil
  then show ?case by simp
next
  case (Cons c cs)
  then show ?case
    by (cases "api c u") (auto dest: api_ok)
qed

lemma fresh_ok: "queues_ok (wp_undo_new b)"
  by (simp add: queues_ok_def wp_undo_new_def)

text \<open>
  With no operation open (\<^verbatim>\<open>current_op == NULL\<close>) and the group not disabled,
  \<^verbatim>\<open>wp_undo_add_queue\<close> stores the operation, its text sanitised, at the head of a new
  group at the head of the undo queue.
\<close>

lemma add_queue_created:
  assumes "current_op u = NULL" "\<not> disable_this_group u"
  shows "\<exists>u'. wp_undo_add_queue u x = Inr u' \<and>
           hd (hd (undo_queue u')) = x\<lparr>op_text := remove_image_tags (op_text x)\<rparr>"
proof -
  let ?x = "x\<lparr>op_text := remove_image_tags (op_text x)\<rparr>"
  let ?u1 = "if group u = 0 \<or> first_in_group u then u\<lparr>first_in_group := False\<rparr> else u"
  let ?u2 = "?u1\<lparr>undo_queue := [?x] # undo_queue ?u1, current_op := UndoHead\<rparr>"
  have a: "wp_undo_add_queue u x =
      Inr (wp_undo_send_signals (evict_oldest (first_in_group u) (?u2\<lparr>redo_queue := []\<rparr>)))"
    using assms
    by (simp add: wp_undo_add_queue_def wp_undo_reset_mergeable_def link_current_op_def Let_def)
  have "undo_queue (?u2\<lparr>redo_queue := []\<rparr>) = [?x] # undo_queue ?u1" by simp
  from evict_oldest_head [OF this, of "first_in_group u"] obtain q' where
    "undo_queue (evict_oldest (first_in_group u) (?u2\<lparr>redo_queue := []\<rparr>)) = [?x] # q'" ..
  then have "hd (hd (undo_queue
      (wp_undo_send_signals (evict_oldest (first_in_group u) (?u2\<lparr>redo_queue := []\<rparr>))))) = ?x"
    by (simp add: send_signals_queue)
  with a show ?thesis by blast
qed

lemma insert_created:
  assumes "current_op u = NULL" "undo_disabled u \<le> 0" "\<not> low_mem u" "\<not> disable_this_group u"
  shows "\<exists>u'. wp_undo_insert_text True True u pos tx (strlen tx) = Inr u' \<and>
           op_type (hd (hd (undo_queue u'))) = WP_UNDO_INSERT \<and>
           mergeable (hd (hd (undo_queue u'))) =
             (g_utf8_strlen tx \<le> 1 \<and> g_utf8_get_char tx \<noteq> 10)"
proof -
  let ?co = "insert_text_co pos tx"
  let ?sp = "mergeable ?co \<and> g_unichar_isspace (g_utf8_get_char tx)"
  have a: "wp_undo_insert_text True True u pos tx (strlen tx) =
      wp_undo_add_queue (u\<lparr>last_char_is_space := ?sp\<rparr>)
        (?co\<lparr>op_type := WP_UNDO_INSERT, op_text := Some tx\<rparr>)"
    using assms by (simp add: wp_undo_insert_text_def insert_text_new_def Let_def)
  from assms have "current_op (u\<lparr>last_char_is_space := ?sp\<rparr>) = NULL"
    "\<not> disable_this_group (u\<lparr>last_char_is_space := ?sp\<rparr>)" by simp_all
  from add_queue_created [OF this, of "?co\<lparr>op_type := WP_UNDO_INSERT, op_text := Some tx\<rparr>"]
  obtain u' where
    "wp_undo_add_queue (u\<lparr>last_char_is_space := ?sp\<rparr>)
       (?co\<lparr>op_type := WP_UNDO_INSERT, op_text := Some tx\<rparr>) = Inr u'"
    "op_type (hd (hd (undo_queue u'))) = WP_UNDO_INSERT"
    "mergeable (hd (hd (undo_queue u'))) = mergeable ?co"
    by auto
  moreover have "mergeable ?co = (g_utf8_strlen tx \<le> 1 \<and> g_utf8_get_char tx \<noteq> 10)"
    by (auto simp: insert_text_co_def Let_def)
  ultimately show ?thesis using a by auto
qed

lemma delete_created:
  assumes "current_op u = NULL" "undo_disabled u \<le> 0" "\<not> low_mem u" "\<not> disable_this_group u"
  shows "\<exists>u'. wp_undo_delete_range True u s e = Inr u' \<and>
           op_type (hd (hd (undo_queue u'))) = WP_UNDO_DELETE \<and>
           mergeable (hd (hd (undo_queue u'))) =
             (int e - int s \<le> 1 \<and> g_utf8_get_char (get_slice (text_buffer u) s e) \<noteq> 10 \<and>
              \<not> iter_toggles_tag (text_buffer u)
                   (if 0 < insert_mark (text_buffer u) then s else e) None)"
proof -
  let ?b = "text_buffer u"
  let ?co = "delete_range_co ?b s e"
  let ?sp = "g_unichar_isspace (g_utf8_get_char (get_slice ?b s e))"
  let ?mrg = "mergeable ?co \<and>
     (if backspace ?co then \<not> iter_toggles_tag ?b s None else \<not> iter_toggles_tag ?b e None)"
  obtain u1 tags where t: "wp_undo_get_toggled_tags u s e = (u1, tags)"
    by (cases "wp_undo_get_toggled_tags u s e") auto
  have a: "wp_undo_delete_range True u s e =
      wp_undo_add_queue (u1\<lparr>last_char_is_space := ?sp\<rparr>)
        (?co\<lparr>op_type := WP_UNDO_DELETE, mergeable := ?mrg, op_tags := tags\<rparr>)"
    using assms t by (simp add: wp_undo_delete_range_def delete_range_new_def Let_def)
  have "current_op u1 = current_op u" "disable_this_group u1 = disable_this_group u"
    using t by (auto simp: wp_undo_get_toggled_tags_def Let_def split: prod.splits)
  with assms have "current_op (u1\<lparr>last_char_is_space := ?sp\<rparr>) = NULL"
    "\<not> disable_this_group (u1\<lparr>last_char_is_space := ?sp\<rparr>)" by simp_all
  from add_queue_created [OF this,
      of "?co\<lparr>op_type := WP_UNDO_DELETE, mergeable := ?mrg, op_tags := tags\<rparr>"]
  obtain u' where
    "wp_undo_add_queue (u1\<lparr>last_char_is_space := ?sp\<rparr>)
       (?co\<lparr>op_type := WP_UNDO_DELETE, mergeable := ?mrg, op_tags := tags\<rparr>) = Inr u'"
    "op_type (hd (hd (undo_queue u'))) = WP_UNDO_DELETE"
    "mergeable (hd (hd (undo_queue u'))) = ?mrg"
    by auto
  moreover have "?mrg =
      (int e - int s \<le> 1 \<and> g_utf8_get_char (get_slice ?b s e) \<noteq> 10 \<and>
       \<not> iter_toggles_tag ?b (if 0 < insert_mark ?b then s else e) None)"
    by (auto simp: delete_range_co_def Let_def)
  ultimately show ?thesis using a by auto
qed





section \<open>The snapshots of the sweep (C8)\<close>

text \<open>A buffer whose characters all carry one tag.\<close>

definition tagged_buffer :: "utf8 \<Rightarrow> GtkTextTag \<Rightarrow> GtkTextBuffer" where
  "tagged_buffer tx tg = (plain_buffer tx 0)\<lparr>contents := map (\<lambda>c. (c, [tg])) tx\<rparr>"

text \<open>
  The entries of the hash table were opened at offsets in \<open>lo .. hi\<close>; the snapshots
  taken so far lie in \<open>lo .. hi\<close> and are not empty.
\<close>

definition hash_in :: "(GtkTextTag \<times> int) list \<Rightarrow> int \<Rightarrow> int \<Rightarrow> bool" where
  "hash_in h lo hi = (\<forall>kv \<in> set h. lo + 1 \<le> snd kv \<and> snd kv \<le> hi + 1)"

definition tags_in :: "WPUndoTag list \<Rightarrow> int \<Rightarrow> int \<Rightarrow> bool" where
  "tags_in tags lo hi =
     (\<forall>t \<in> set tags. lo \<le> tag_start t \<and> tag_start t < tag_end t \<and> tag_end t \<le> hi)"

lemma hash_insert_set: "set (hash_insert h k v) \<subseteq> insert (k, v) (set h)"
  by (induction h) (auto split: if_splits)

lemma hash_insert_in:
  "hash_in h lo hi \<Longrightarrow> lo + 1 \<le> v \<Longrightarrow> v \<le> hi + 1 \<Longrightarrow> hash_in (hash_insert h k v) lo hi"
  using hash_insert_set [of h k v] by (auto simp: hash_in_def)

lemma open_tags_in:
  "hash_in h lo hi \<Longrightarrow> lo \<le> int tmp \<Longrightarrow> int tmp \<le> hi \<Longrightarrow> hash_in (open_tags tmp ts h) lo hi"
proof (induction ts arbitrary: h)
  case Nil
  then show ?case by simp
next
  case (Cons t ts)
  from Cons.prems have "hash_in (hash_insert h t (int tmp + 1)) lo hi"
    by (intro hash_insert_in) auto
  from Cons.IH [OF this Cons.prems(2,3)] show ?case by simp
qed

lemma hash_in_mono: "hash_in h lo hi \<Longrightarrow> hi \<le> hi' \<Longrightarrow> hash_in h lo hi'"
  by (auto simp: hash_in_def)

lemma tags_in_mono: "tags_in tags lo hi \<Longrightarrow> hi \<le> hi' \<Longrightarrow> tags_in tags lo hi'"
  by (auto simp: tags_in_def)

lemma hash_lookup_in:
  "hash_in h lo hi \<Longrightarrow> hash_lookup h k \<noteq> 0 \<Longrightarrow> lo + 1 \<le> hash_lookup h k \<and> hash_lookup h k \<le> hi + 1"
  by (auto simp: hash_in_def hash_lookup_def split: option.splits dest!: map_of_SomeD)

lemma hash_remove_in: "hash_in h lo hi \<Longrightarrow> hash_in (hash_remove h k) lo hi"
  by (auto simp: hash_in_def hash_remove_def)

lemma close_tags_in:
  assumes "close_tags q ts (h, tags) = (h', tags')" "hash_in h lo hi" "tags_in tags lo (int q)"
    "hi < int q"
  shows "hash_in h' lo hi \<and> tags_in tags' lo (int q)"
  using assms
proof (induction ts arbitrary: h tags)
  case Nil
  then show ?case by simp
next
  case (Cons t ts)
  show ?case
  proof (cases "hash_lookup h t = 0")
    case True
    with Cons show ?thesis by simp
  next
    case False
    from hash_lookup_in [OF Cons.prems(2) False] Cons.prems(3,4)
    have "tags_in (wp_undo_create_tag (hash_lookup h t - 1) q t True # tags) lo (int q)"
      by (auto simp: tags_in_def wp_undo_create_tag_def)
    with Cons.IH [of "hash_remove h t" "wp_undo_create_tag (hash_lookup h t - 1) q t True # tags"]
      Cons.prems False hash_remove_in [OF Cons.prems(2)]
    show ?thesis by (simp add: Let_def)
  qed
qed

lemma sweep_loop_in:
  assumes "sweep_loop b e (h, tags) tmp = (h', tags')" "hash_in h lo (int tmp)"
    "tags_in tags lo (int tmp)" "tmp < e" "lo \<le> int tmp"
  shows "\<exists>hi. hi < int e \<and> hash_in h' lo hi \<and> tags_in tags' lo hi"
  using assms
proof (induction b e "(h, tags)" tmp arbitrary: h tags rule: sweep_loop.induct)
  case (1 b e tmp)
  obtain found q where f: "iter_forward_to_tag_toggle b tmp None = (found, q)"
    by (cases "iter_forward_to_tag_toggle b tmp None") auto
  show ?case
  proof (cases "found \<and> q < e")
    case False
    with f "1.prems"(1) have "h' = h" "tags' = tags"
      by (auto simp: sweep_loop.simps [of b e "(h, tags)" tmp] split: bool.splits if_splits)
    with "1.prems"(2-4) show ?thesis by (intro exI [of _ "int tmp"]) simp
  next
    case True
    with f have f': "iter_forward_to_tag_toggle b tmp None = (True, q)" by simp
    from forward_to_tag_toggle_range [OF f'] have lt: "tmp < q" by simp
    obtain h1 tags1 where c: "close_tags q (iter_get_toggled_tags b q False) (h, tags) = (h1, tags1)"
      by (cases "close_tags q (iter_get_toggled_tags b q False) (h, tags)") auto
    from close_tags_in [OF c "1.prems"(2) tags_in_mono [OF "1.prems"(3)]] lt
    have i: "hash_in h1 lo (int tmp)" "tags_in tags1 lo (int q)" by auto
    from i(1) lt "1.prems"(2,5) have o: "hash_in (open_tags q (iter_get_toggled_tags b q True) h1) lo (int q)"
      by (intro open_tags_in hash_in_mono [of h1 lo "int tmp" "int q"])
         (auto simp: hash_in_def)
    have r: "sweep_loop b e (open_tags q (iter_get_toggled_tags b q True) h1, tags1) q = (h', tags')"
      using "1.prems"(1) f' True c by (simp add: sweep_loop.simps [of b e "(h, tags)" tmp])
    from True lt "1.prems"(5) have "\<not> e \<le> q" "q < e" "lo \<le> int q" by auto
    from "1.hyps" [OF f' [symmetric] refl this(1) c [symmetric] r o i(2) this(2,3)]
    show ?thesis .
  qed
qed

lemma close_opened_tags_in:
  "hash_in h lo hi \<Longrightarrow> tags_in tags lo (int e) \<Longrightarrow> hi < int e \<Longrightarrow>
     tags_in (wp_undo_close_opened_tags e h tags) lo (int e)"
proof (induction h arbitrary: tags)
  case Nil
  then show ?case by simp
next
  case (Cons kv h)
  obtain k v where kv: "kv = (k, v)" by (cases kv)
  from Cons.prems kv have "tags_in (wp_undo_create_tag (v - 1) e k True # tags) lo (int e)"
    by (auto simp: tags_in_def hash_in_def wp_undo_create_tag_def)
  moreover from Cons.prems have "hash_in h lo hi" by (simp add: hash_in_def)
  ultimately show ?case using Cons.IH Cons.prems(3) kv by simp
qed

lemma get_toggled_tags_in:
  assumes "hash u = []" "s < e"
  shows "tags_in (snd (wp_undo_get_toggled_tags u s e)) (int s) (int e)"
proof -
  let ?b = "text_buffer u"
  let ?h0 = "open_tags s (iter_get_tags ?b s) []"
  obtain h1 tags where l: "sweep_loop ?b e (?h0, []) s = (h1, tags)"
    by (cases "sweep_loop ?b e (?h0, []) s") auto
  have "hash_in ?h0 (int s) (int s)"
    by (rule open_tags_in) (simp_all add: hash_in_def)
  from sweep_loop_in [OF l this _ assms(2)] obtain hi where
    hi: "hi < int e" "hash_in h1 (int s) hi" "tags_in tags (int s) hi"
    by (auto simp: tags_in_def)
  from close_opened_tags_in [OF hi(2) tags_in_mono [OF hi(3)] hi(1)] hi(1)
  have "tags_in (wp_undo_close_opened_tags e h1 tags) (int s) (int e)" by simp
  with l assms(1) show ?thesis
    by (simp add: wp_undo_get_toggled_tags_def Let_def tags_in_def)
qed

text \<open>The sweep over a zero-length range.\<close>

lemma sweep_loop_empty_range: "sweep_loop b s acc s = acc"
proof -
  obtain found q where f: "iter_forward_to_tag_toggle b s None = (found, q)"
    by (cases "iter_forward_to_tag_toggle b s None") auto
  show ?thesis
  proof (cases found)
    case True
    with f forward_to_tag_toggle_range [of b s None q] have "s \<le> q" by simp
    with f True show ?thesis by simp
  next
    case False
    with f show ?thesis by simp
  qed
qed

lemma hash_insert_keys: "fst ` set (hash_insert h k v) = insert k (fst ` set h)"
proof (induction h)
  case Nil
  then show ?case by simp
next
  case (Cons kv h)
  obtain a b where "kv = (a, b)" by (cases kv)
  with Cons show ?case by (cases "a = k") auto
qed

lemma hash_insert_val:
  "\<forall>kv \<in> set h. snd kv = v \<Longrightarrow> \<forall>kv \<in> set (hash_insert h k v). snd kv = v"
  using hash_insert_set [of h k v] by auto

lemma open_tags_keys: "fst ` set (open_tags tmp ts h) = set ts \<union> fst ` set h"
  by (induction ts arbitrary: h) (auto simp: hash_insert_keys)

lemma open_tags_val:
  "\<forall>kv \<in> set h. snd kv = int tmp + 1 \<Longrightarrow> \<forall>kv \<in> set (open_tags tmp ts h). snd kv = int tmp + 1"
  by (induction ts arbitrary: h) (auto dest: hash_insert_val simp del: hash_insert.simps)

lemma close_opened_tags_set:
  "set (wp_undo_close_opened_tags e h tags) =
     set tags \<union> (\<lambda>kv. wp_undo_create_tag (snd kv - 1) e (fst kv) True) ` set h"
proof (induction h arbitrary: tags)
  case Nil
  then show ?case by simp
next
  case (Cons kv h)
  obtain a b where "kv = (a, b)" by (cases kv)
  with Cons [of "wp_undo_create_tag (b - 1) e a True # tags"] show ?case by auto
qed

lemma get_toggled_tags_empty_range:
  assumes "hash u = []"
  shows "set (snd (wp_undo_get_toggled_tags u s s)) =
     (\<lambda>tg. \<lparr>tag_apply = True, tag_start = int s, tag_end = int s, tag_tag = tg\<rparr>) `
       set (iter_get_tags (text_buffer u) s)"
proof -
  let ?h0 = "open_tags s (iter_get_tags (text_buffer u) s) []"
  have v: "\<forall>kv \<in> set ?h0. snd kv = int s + 1"
    by (rule open_tags_val) simp
  have k: "fst ` set ?h0 = set (iter_get_tags (text_buffer u) s)"
    by (simp add: open_tags_keys)
  have "set (snd (wp_undo_get_toggled_tags u s s)) =
      (\<lambda>kv. wp_undo_create_tag (snd kv - 1) s (fst kv) True) ` set ?h0"
    using assms
    by (simp add: wp_undo_get_toggled_tags_def Let_def sweep_loop_empty_range close_opened_tags_set
        del: sweep_loop.simps)
  also have "\<dots> = (\<lambda>kv. \<lparr>tag_apply = True, tag_start = int s, tag_end = int s, tag_tag = fst kv\<rparr>) ` set ?h0"
    using v by (intro image_cong refl) (simp add: wp_undo_create_tag_def)
  also have "\<dots> = (\<lambda>tg. \<lparr>tag_apply = True, tag_start = int s, tag_end = int s, tag_tag = tg\<rparr>) ` (fst ` set ?h0)"
    by (simp add: image_image)
  finally show ?thesis using k by simp
qed


text \<open>
  C8, as amended. The hash table is empty between two sweeps. Then the sweep over a
  zero-length range returns one zero-length snapshot for each tag that applies at the
  offset, and nothing else: the list is empty only where no tag applies. Over a range
  with \<open>start < end\<close> every snapshot lies inside the range and is not empty.
\<close>

theorem C8_sweep_snapshots:
  assumes "hash u = []"
  shows "set (snd (wp_undo_get_toggled_tags u s s)) =
           (\<lambda>tg. \<lparr>tag_apply = True, tag_start = int s, tag_end = int s, tag_tag = tg\<rparr>) `
             set (iter_get_tags (text_buffer u) s) \<and>
         (s < e \<longrightarrow>
            (\<forall>t \<in> set (snd (wp_undo_get_toggled_tags u s e)).
               int s \<le> tag_start t \<and> tag_start t < tag_end t \<and> tag_end t \<le> int e))"
proof (intro conjI impI)
  show "set (snd (wp_undo_get_toggled_tags u s s)) =
           (\<lambda>tg. \<lparr>tag_apply = True, tag_start = int s, tag_end = int s, tag_tag = tg\<rparr>) `
             set (iter_get_tags (text_buffer u) s)"
    by (rule get_toggled_tags_empty_range [OF assms])
next
  assume "s < e"
  from get_toggled_tags_in [OF assms this]
  show "\<forall>t \<in> set (snd (wp_undo_get_toggled_tags u s e)).
      int s \<le> tag_start t \<and> tag_start t < tag_end t \<and> tag_end t \<le> int e"
    by (simp add: tags_in_def)
qed

theorem C8_sweep_snapshots_witness:
  "snd (wp_undo_get_toggled_tags (wp_undo_new (tagged_buffer (ascii ''abc'') 1)) 0 2) =
     [\<lparr>tag_apply = True, tag_start = 0, tag_end = 2, tag_tag = 1\<rparr>] \<and>
   set (snd (wp_undo_get_toggled_tags (wp_undo_new (tagged_buffer (ascii ''abc'') 1)) 0 0)) =
     {\<lparr>tag_apply = True, tag_start = 0, tag_end = 0, tag_tag = 1\<rparr>}"
proof -
  let ?u = "wp_undo_new (tagged_buffer (ascii ''abc'') 1)"
  have h: "hash ?u = []"
    by (simp add: wp_undo_new_def)
  have t: "iter_get_tags (text_buffer ?u) 0 = [1]"
    by (simp add: wp_undo_new_def tagged_buffer_def plain_buffer_def ascii_def buffer_defs)
  have v: "snd (wp_undo_get_toggled_tags ?u 0 2) =
      [\<lparr>tag_apply = True, tag_start = 0, tag_end = 2, tag_tag = 1\<rparr>]"
    by (simp add: wp_undo_get_toggled_tags_def wp_undo_new_def tagged_buffer_def plain_buffer_def
        ascii_def buffer_defs iter_forward_to_tag_toggle_def hash_lookup_def hash_remove_def
        wp_undo_create_tag_def Let_def)
  from C8_sweep_snapshots [OF h, of 0 2] t v show ?thesis
    by simp
qed

text \<open>
  C8 as stated fails: in a buffer "ab" whose two characters carry tag 1, the sweep over
  the zero-length range 1..1 returns a snapshot of tag 1, of length zero.
\<close>

theorem C8_counterexample:
  "snd (wp_undo_get_toggled_tags (wp_undo_new (tagged_buffer (ascii ''ab'') 1)) 1 1) =
     [\<lparr>tag_apply = True, tag_start = 1, tag_end = 1, tag_tag = 1\<rparr>]"
  by (simp add: wp_undo_get_toggled_tags_def wp_undo_new_def tagged_buffer_def plain_buffer_def
      ascii_def buffer_defs iter_forward_to_tag_toggle_def hash_lookup_def hash_remove_def
      wp_undo_create_tag_def Let_def)

section \<open>The order of undo inside a group (C2)\<close>

text \<open>
  The engine after \<^verbatim>\<open>wp_undo_undo\<close> has moved the head group of the undo queue to the
  redo queue, before the first operation is replayed.
\<close>

definition head_group_moved :: "WPUndo \<Rightarrow> WPUndo" where
  "head_group_moved u =
     (let u1 = wp_undo_freeze u
      in u1\<lparr>undo_queue := tl (undo_queue u1), redo_queue := hd (undo_queue u1) # redo_queue u1,
            undo_queue_len := undo_queue_len u1 - 1,
            current_op := (if current_op u1 = UndoHead then RedoHead else current_op u1)\<rparr>)"

text \<open>Two operations that record the same edit: type, range and text agree.\<close>

definition same_edit :: "WPUndoOperation \<Rightarrow> WPUndoOperation \<Rightarrow> bool" where
  "same_edit x y =
     (op_type y = op_type x \<and> op_start y = op_start x \<and> op_end y = op_end x \<and>
      op_text y = op_text x)"

text \<open>
  The undo of the specification, for comparison: as \<^verbatim>\<open>wp_undo_undo\<close>, but the operations
  of the group are inverted in the order they were recorded in, the first one first. The
  group's list holds the operation recorded last at its head, so this is the reversed
  list.
\<close>

definition spec_undo :: "WPUndo \<Rightarrow> error + WPUndo" where
  "spec_undo u =
     (case undo_queue u of
        [] \<Rightarrow> Inr u
      | lact # rest \<Rightarrow>
          if low_mem u then Inr u
          else
            (case replay_loop undo_operation (head_group_moved u) (- 1) (rev lact) of
               Inl e \<Rightarrow> Inl e
             | Inr (u3, pcp, ops) \<Rightarrow>
                 (let u4 = u3\<lparr>redo_queue := rev ops # tl (redo_queue u3)\<rparr>;
                      u5 = wp_undo_thaw (place_proposed_cursor u4 pcp)
                  in case wp_undo_reset_mergeable u5 of
                       Inl e \<Rightarrow> Inl e
                     | Inr u6 \<Rightarrow> Inr (wp_undo_send_signals u6))))"

text \<open>A transaction of two insertions, "ab" at 0 and "cd" at 2, in an empty buffer.\<close>

definition recorded_ab :: WPUndo where
  "recorded_ab =
     (case run [begin_transaction, host_insert_text 0 (ascii ''ab'')] (wp_undo_new empty_buffer) of
        Inr u \<Rightarrow> u | Inl e \<Rightarrow> wp_undo_new empty_buffer)"

definition recorded_ab_cd :: WPUndo where
  "recorded_ab_cd =
     (case run [host_insert_text 2 (ascii ''cd''), end_transaction] recorded_ab of
        Inr u \<Rightarrow> u | Inl e \<Rightarrow> wp_undo_new empty_buffer)"

lemma same_edit_refl [simp]: "same_edit x x"
  by (simp add: same_edit_def)

lemma same_operation_edit: "same_operation x y \<Longrightarrow> same_edit x y"
  by (simp add: same_edit_def same_operation_fields)

lemma same_edit_trans: "same_edit x y \<Longrightarrow> same_edit y z \<Longrightarrow> same_edit x z"
  by (simp add: same_edit_def)

lemma send_signals_buffer [simp]: "text_buffer (wp_undo_send_signals u) = text_buffer u"
  by (simp add: wp_undo_send_signals_def Let_def)

lemma add_queue_in_group:
  assumes "current_op u = UndoHead" "undo_queue u = g # q" "group u \<noteq> 0" "\<not> first_in_group u"
    "\<not> disable_this_group u"
  shows "\<exists>u'. wp_undo_add_queue u x = Inr u' \<and>
           undo_queue u' = (x\<lparr>op_text := remove_image_tags (op_text x)\<rparr> # g) # q"
  using assms
  by (simp add: wp_undo_add_queue_def link_current_op_def evict_oldest_def Let_def send_signals_queue)

lemma reset_mergeable_moved:
  assumes "wp_undo_reset_mergeable u = Inr u'" "current_op u \<noteq> UndoHead"
  shows "undo_queue u' = undo_queue u" "text_buffer u' = text_buffer u"
    "tl (redo_queue u') = tl (redo_queue u)"
    "list_all2 same_edit (hd (redo_queue u)) (hd (redo_queue u'))"
  using assms
  by (auto simp: wp_undo_reset_mergeable_def deref_current_def store_current_def same_edit_def
      list.rel_refl
      split: if_splits sum.splits OpPtr.splits list.splits)

lemma place_proposed_cursor_contents [simp]:
  "contents (text_buffer (place_proposed_cursor u pcp)) = contents (text_buffer u)"
  by (simp add: place_proposed_cursor_def set_buffer_def buffer_place_cursor_def
      buffer_select_range_def)

lemma undo_replay:
  assumes q: "undo_queue u = lact # rest" and l: "\<not> low_mem u" and r: "wp_undo_undo u = Inr u'"
  shows "\<exists>u3 pcp ops. replay_loop undo_operation (head_group_moved u) (- 1) lact = Inr (u3, pcp, ops) \<and>
           contents (text_buffer u') = contents (text_buffer u3) \<and>
           undo_queue u' = rest \<and> tl (redo_queue u') = redo_queue u \<and>
           list_all2 same_edit lact (hd (redo_queue u'))"
proof -
  let ?u2 = "head_group_moved u"
  have u2: "?u2 = (wp_undo_freeze u)\<lparr>undo_queue := rest,
        redo_queue := lact # redo_queue (wp_undo_freeze u),
        undo_queue_len := undo_queue_len (wp_undo_freeze u) - 1,
        current_op := (if current_op (wp_undo_freeze u) = UndoHead then RedoHead
                       else current_op (wp_undo_freeze u))\<rparr>"
    using q by (simp add: head_group_moved_def Let_def)
  have q2: "undo_queue ?u2 = rest" "redo_queue ?u2 = lact # redo_queue u"
    "current_op ?u2 \<noteq> UndoHead"
    by (simp_all add: u2)
  from r q l obtain u3 pcp ops where
    rl: "replay_loop undo_operation ?u2 (- 1) lact = Inr (u3, pcp, ops)"
    by (cases "replay_loop undo_operation ?u2 (- 1) lact")
       (auto simp: wp_undo_undo_def Let_def u2)
  with r q l obtain u6 where
    rm: "wp_undo_reset_mergeable (wp_undo_thaw (place_proposed_cursor
           (u3\<lparr>redo_queue := ops # tl (redo_queue u3)\<rparr>) pcp)) = Inr u6" and
    u': "u' = wp_undo_send_signals u6"
    by (auto simp: wp_undo_undo_def Let_def u2 split: sum.splits)
  let ?u5 = "wp_undo_thaw (place_proposed_cursor (u3\<lparr>redo_queue := ops # tl (redo_queue u3)\<rparr>) pcp)"
  from replay_loop_frame [OF undo_operation_frame rl]
  have f: "same_engine ?u2 u3" "list_all2 same_operation lact ops" by simp_all
  have c5: "current_op ?u5 \<noteq> UndoHead"
    using same_engine_fields(3) [OF f(1)] q2(3)
    by (simp add: wp_undo_thaw_def place_proposed_cursor_def set_buffer_def)
  have q5: "undo_queue ?u5 = rest" "redo_queue ?u5 = ops # redo_queue u"
    using same_engine_fields(1,2) [OF f(1)] q2 by simp_all
  have b5: "contents (text_buffer ?u5) = contents (text_buffer u3)"
    by (simp add: wp_undo_thaw_def)
  from reset_mergeable_moved [OF rm c5] q5 b5
  have "undo_queue u6 = rest" "contents (text_buffer u6) = contents (text_buffer u3)"
    "tl (redo_queue u6) = redo_queue u" "list_all2 same_edit ops (hd (redo_queue u6))"
    by simp_all
  moreover from f(2) have "list_all2 same_edit lact ops"
    by (rule list_all2_mono) (rule same_operation_edit)
  ultimately have "contents (text_buffer u') = contents (text_buffer u3)"
    "undo_queue u' = rest" "tl (redo_queue u') = redo_queue u"
    "list_all2 same_edit lact (hd (redo_queue u'))"
    by (auto simp: u' send_signals_queue intro: list_all2_trans [OF same_edit_trans])
  with rl show ?thesis by blast
qed


lemmas replay_defs =
  wp_undo_undo_def wp_undo_redo_def undo_operation_def redo_operation_def
  place_proposed_cursor_def wp_undo_freeze_def wp_undo_thaw_def group_after_reverse_def
  wp_undo_apply_saved_tags_def




section \<open>The capacity of the undo queue (C4)\<close>

text \<open>A buffer without any tag.\<close>

definition plain :: "GtkTextBuffer \<Rightarrow> bool" where
  "plain b = (\<forall>c \<in> set (contents b). snd c = [])"

text \<open>Every group of the queue holds one insertion.\<close>

definition single_inserts :: "WPUndoOperation list list \<Rightarrow> bool" where
  "single_inserts q = (\<forall>g \<in> set q. \<exists>x. g = [x] \<and> op_type x = WP_UNDO_INSERT)"

text \<open>
  The engine between two transactions of a run that records one insertion per
  transaction: recording is enabled, no group is open, the length counter agrees with
  the undo queue, which holds at most \<open>m\<close> groups of one insertion each, and
  \<^verbatim>\<open>current_op\<close> points at the head of the queue.
\<close>

definition sealed :: "int \<Rightarrow> WPUndo \<Rightarrow> bool" where
  "sealed m u =
     (undo_disabled u = 0 \<and> \<not> low_mem u \<and> group u = 0 \<and> \<not> disable_this_group u \<and>
      max_undo_level u = m \<and> undo_queue_len u = int (length (undo_queue u)) \<and>
      length (undo_queue u) \<le> nat m \<and>
      current_op u = (if undo_queue u = [] then NULL else UndoHead) \<and>
      single_inserts (undo_queue u) \<and> plain (text_buffer u))"

lemma plain_tags [simp]: "plain b \<Longrightarrow> iter_get_tags b p = []"
  by (auto simp: plain_def iter_get_tags_def get_char_count_def)

lemma plain_no_toggle [simp]: "plain b \<Longrightarrow> \<not> iter_toggles_tag b p tg"
  by (simp add: iter_toggles_tag_def iter_get_toggled_tags_def tags_before_def split: option.splits)

lemma plain_insert: "plain b \<Longrightarrow> plain (fst (buffer_insert b p tx))"
  by (auto simp: plain_def buffer_insert_def Let_def dest: in_set_takeD in_set_dropD)

lemma plain_delete: "plain b \<Longrightarrow> plain (buffer_delete b s e)"
  by (auto simp: plain_def buffer_delete_def Let_def dest: in_set_takeD in_set_dropD)

lemma plain_place_cursor [simp]: "plain (buffer_place_cursor b p) = plain b"
  by (simp add: plain_def buffer_place_cursor_def buffer_select_range_def)

lemma place_cursor_contents [simp]: "contents (buffer_place_cursor b p) = contents b"
  by (simp add: buffer_place_cursor_def buffer_select_range_def)

lemma plain_plain_buffer [simp]: "plain (plain_buffer t c)"
  by (auto simp: plain_def plain_buffer_def)

text \<open>The queue after \<^verbatim>\<open>wp_undo_add_queue\<close> has counted and trimmed it.\<close>

lemma evict_oldest_trim:
  assumes "undo_queue_len u + 1 = int (length (undo_queue u))" "1 \<le> max_undo_level u"
  shows "undo_queue (evict_oldest True u) = take (nat (max_undo_level u)) (undo_queue u)"
    "undo_queue_len (evict_oldest True u) = int (length (take (nat (max_undo_level u)) (undo_queue u)))"
  using assms
  by (auto simp: evict_oldest_def Let_def g_slist_nth_exists_def Suc_nat_eq_nat_zadd1 min_def)


lemma send_signals_fields [simp]:
  "undo_queue_len (wp_undo_send_signals u) = undo_queue_len u"
  "current_op (wp_undo_send_signals u) = current_op u"
  "undo_disabled (wp_undo_send_signals u) = undo_disabled u"
  "low_mem (wp_undo_send_signals u) = low_mem u"
  "group (wp_undo_send_signals u) = group u"
  "disable_this_group (wp_undo_send_signals u) = disable_this_group u"
  "max_undo_level (wp_undo_send_signals u) = max_undo_level u"
  "first_in_group (wp_undo_send_signals u) = first_in_group u"
  by (simp_all add: wp_undo_send_signals_def Let_def)

lemma evict_oldest_fields [simp]:
  "current_op (evict_oldest f u) = current_op u"
  "undo_disabled (evict_oldest f u) = undo_disabled u"
  "low_mem (evict_oldest f u) = low_mem u"
  "group (evict_oldest f u) = group u"
  "disable_this_group (evict_oldest f u) = disable_this_group u"
  "max_undo_level (evict_oldest f u) = max_undo_level u"
  "text_buffer (evict_oldest f u) = text_buffer u"
  "redo_queue (evict_oldest f u) = redo_queue u"
  by (simp_all add: evict_oldest_def Let_def)

lemma single_inserts_simps [simp]:
  "single_inserts []"
  "single_inserts (g # q) = ((\<exists>x. g = [x] \<and> op_type x = WP_UNDO_INSERT) \<and> single_inserts q)"
  by (auto simp: single_inserts_def)

lemma single_inserts_take: "single_inserts q \<Longrightarrow> single_inserts (take n q)"
  by (auto simp: single_inserts_def dest: in_set_takeD)

text \<open>
  \<^verbatim>\<open>wp_undo_reset_mergeable\<close> clears the flag of the operation at the head of the queue;
  nothing else changes in the groups already queued.
\<close>

definition unmerged :: "WPUndoOperation list list \<Rightarrow> WPUndoOperation list list \<Rightarrow> bool" where
  "unmerged q q' = (q' = q \<or> (\<exists>y r. q = [y] # r \<and> q' = [y\<lparr>mergeable := False\<rparr>] # r))"

lemma unmerged_single_inserts: "unmerged q q' \<Longrightarrow> single_inserts q \<Longrightarrow> single_inserts q'"
  by (auto simp: unmerged_def)

lemma unmerged_texts: "unmerged q q' \<Longrightarrow> map (map op_text) q' = map (map op_text) q"
  by (auto simp: unmerged_def)

lemma add_queue_first_result:
  assumes "first_in_group u" "\<not> disable_this_group u"
    "current_op u = (if undo_queue u = [] then NULL else UndoHead)"
    "single_inserts (undo_queue u)"
  shows "\<exists>q'. unmerged (undo_queue u) q' \<and>
     wp_undo_add_queue u x = Inr (wp_undo_send_signals (evict_oldest True
       (u\<lparr>first_in_group := False,
           undo_queue := [x\<lparr>op_text := remove_image_tags (op_text x)\<rparr>] # q',
           current_op := UndoHead, redo_queue := []\<rparr>)))"
proof (cases "undo_queue u")
  case Nil
  with assms have "wp_undo_add_queue u x = Inr (wp_undo_send_signals (evict_oldest True
     (u\<lparr>first_in_group := False,
         undo_queue := [x\<lparr>op_text := remove_image_tags (op_text x)\<rparr>] # [],
         current_op := UndoHead, redo_queue := []\<rparr>)))"
    by (simp add: wp_undo_add_queue_def wp_undo_reset_mergeable_def link_current_op_def Let_def)
  moreover from Nil have "unmerged (undo_queue u) []" by (simp add: unmerged_def)
  ultimately show ?thesis by blast
next
  case (Cons g q)
  with assms(4) obtain y where g: "g = [y]" by auto
  with Cons assms have "wp_undo_add_queue u x = Inr (wp_undo_send_signals (evict_oldest True
     (u\<lparr>first_in_group := False,
         undo_queue := [x\<lparr>op_text := remove_image_tags (op_text x)\<rparr>] # [y\<lparr>mergeable := False\<rparr>] # q,
         current_op := UndoHead, redo_queue := []\<rparr>)))"
    by (simp add: wp_undo_add_queue_def wp_undo_reset_mergeable_def link_current_op_def
        deref_current_def store_current_def Let_def)
  moreover from Cons g have "unmerged (undo_queue u) ([y\<lparr>mergeable := False\<rparr>] # q)"
    by (simp add: unmerged_def)
  ultimately show ?thesis by blast
qed

lemma add_queue_first:
  assumes "first_in_group u" "\<not> disable_this_group u"
    "current_op u = (if undo_queue u = [] then NULL else UndoHead)"
    "single_inserts (undo_queue u)"
    "undo_queue_len u = int (length (undo_queue u))" "1 \<le> max_undo_level u"
    "op_type x = WP_UNDO_INSERT"
  shows "\<exists>u'. wp_undo_add_queue u x = Inr u' \<and>
     map (map op_text) (undo_queue u') =
       take (nat (max_undo_level u)) ([remove_image_tags (op_text x)] # map (map op_text) (undo_queue u)) \<and>
     single_inserts (undo_queue u') \<and>
     undo_queue_len u' = int (length (undo_queue u')) \<and> current_op u' = UndoHead \<and>
     undo_queue u' \<noteq> [] \<and> redo_queue u' = [] \<and>
     undo_disabled u' = undo_disabled u \<and> low_mem u' = low_mem u \<and> group u' = group u \<and>
     \<not> disable_this_group u' \<and> max_undo_level u' = max_undo_level u \<and>
     text_buffer u' = text_buffer u \<and>
     (\<exists>q'. undo_queue u' = take (nat (max_undo_level u))
                                ([x\<lparr>op_text := remove_image_tags (op_text x)\<rparr>] # q') \<and>
           unmerged (undo_queue u) q')"
proof -
  let ?x = "x\<lparr>op_text := remove_image_tags (op_text x)\<rparr>"
  from add_queue_first_result [OF assms(1-4), of x] obtain q' where
    n: "unmerged (undo_queue u) q'" and
    a: "wp_undo_add_queue u x = Inr (wp_undo_send_signals (evict_oldest True
       (u\<lparr>first_in_group := False, undo_queue := [?x] # q', current_op := UndoHead, redo_queue := []\<rparr>)))"
    by blast
  from n assms(4) have q': "single_inserts q'" "map (map op_text) q' = map (map op_text) (undo_queue u)"
    by (simp_all add: unmerged_single_inserts unmerged_texts)
  let ?u2 = "u\<lparr>first_in_group := False, undo_queue := [?x] # q', current_op := UndoHead, redo_queue := []\<rparr>"
  from q'(2) have len: "length q' = length (undo_queue u)"
    by (metis length_map)
  with assms have "undo_queue_len ?u2 + 1 = int (length (undo_queue ?u2))" "1 \<le> max_undo_level ?u2"
    by simp_all
  note t = evict_oldest_trim [OF this]
  have m: "0 < nat (max_undo_level u)" using assms(6) by simp
  from t(1) n have e: "\<exists>q'. undo_queue (evict_oldest True ?u2) =
      take (nat (max_undo_level u)) ([?x] # q') \<and> unmerged (undo_queue u) q'"
    by auto
  from t q' assms(2,7) m e show ?thesis
    by (simp add: a send_signals_queue take_map [symmetric] single_inserts_take
        del: take_map)
qed


lemma insert_transaction_sealed:
  assumes "sealed m u" "2 \<le> length tx" "1 \<le> m"
  shows "\<exists>u'. insert_transaction pos tx u = Inr u' \<and> sealed m u' \<and> redo_queue u' = [] \<and>
     map (map op_text) (undo_queue u') =
       take (nat m) ([Some (remove_image_chars tx)] # map (map op_text) (undo_queue u)) \<and>
     text_buffer u' = fst (buffer_insert (text_buffer u) pos tx) \<and>
     (\<exists>q'. undo_queue u' =
             take (nat m) ([(insert_text_co pos tx)\<lparr>op_type := WP_UNDO_INSERT,
                              op_text := Some (remove_image_chars tx)\<rparr>] # q') \<and>
           unmerged (undo_queue u) q')"
proof -
  let ?u1 = "(wp_undo_start_group u)\<lparr>last_char_is_space := False\<rparr>"
  let ?x = "(insert_text_co pos tx)\<lparr>op_type := WP_UNDO_INSERT, op_text := Some tx\<rparr>"
  from assms(1) have s: "undo_disabled u = 0" "\<not> low_mem u" "group u = 0" "\<not> disable_this_group u"
    "max_undo_level u = m" "undo_queue_len u = int (length (undo_queue u))"
    "length (undo_queue u) \<le> nat m"
    "current_op u = (if undo_queue u = [] then NULL else UndoHead)"
    "single_inserts (undo_queue u)" "plain (text_buffer u)"
    by (simp_all add: sealed_def)
  have r: "record_insert pos tx (wp_undo_start_group u) = wp_undo_add_queue ?u1 ?x"
    using s(1-3) assms(2)
    by (simp add: record_insert_def wp_undo_insert_text_def insert_text_new_def insert_text_co_def
        Let_def g_utf8_strlen_def wp_undo_start_group_def)
  have "first_in_group ?u1" "\<not> disable_this_group ?u1"
    "current_op ?u1 = (if undo_queue ?u1 = [] then NULL else UndoHead)"
    "single_inserts (undo_queue ?u1)" "undo_queue_len ?u1 = int (length (undo_queue ?u1))"
    "1 \<le> max_undo_level ?u1" "op_type ?x = WP_UNDO_INSERT"
    using s assms(3) by (simp_all add: wp_undo_start_group_def Let_def)
  note h = this
  have u1: "max_undo_level ?u1 = m" "undo_queue ?u1 = undo_queue u" "text_buffer ?u1 = text_buffer u"
    "undo_disabled ?u1 = 0" "\<not> low_mem ?u1" "group ?u1 = 1"
    using s by (simp_all add: wp_undo_start_group_def Let_def)
  from add_queue_first [OF h] obtain u2 where
    a: "wp_undo_add_queue ?u1 ?x = Inr u2" and
    q: "map (map op_text) (undo_queue u2) =
       take (nat (max_undo_level ?u1)) ([remove_image_tags (op_text ?x)] # map (map op_text) (undo_queue ?u1))"
    and f: "single_inserts (undo_queue u2)" "undo_queue_len u2 = int (length (undo_queue u2))"
      "current_op u2 = UndoHead" "undo_queue u2 \<noteq> []" "redo_queue u2 = []"
      "undo_disabled u2 = undo_disabled ?u1" "low_mem u2 = low_mem ?u1" "group u2 = group ?u1"
      "\<not> disable_this_group u2" "max_undo_level u2 = max_undo_level ?u1"
      "text_buffer u2 = text_buffer ?u1"
    and e: "\<exists>q'. undo_queue u2 = take (nat (max_undo_level ?u1))
                ([?x\<lparr>op_text := remove_image_tags (op_text ?x)\<rparr>] # q') \<and>
              unmerged (undo_queue ?u1) q'"
    by blast
  let ?u3 = "wp_undo_end_group (set_buffer u2 (fst (buffer_insert (text_buffer u2) pos tx)))"
  have t: "insert_transaction pos tx u = Inr ?u3"
    using r a
    by (simp add: insert_transaction_def begin_transaction_def end_transaction_def
        host_insert_text_def)
  have "length (map (map op_text) (undo_queue u2)) \<le> nat (max_undo_level ?u1)"
    unfolding q by simp
  then have l: "length (undo_queue u2) \<le> nat m"
    using u1 by simp
  have "sealed m ?u3"
    using f u1 s(10) l plain_insert [of "text_buffer u" pos tx]
    by (simp add: sealed_def wp_undo_end_group_def set_buffer_def Let_def)
  moreover have "undo_queue ?u3 = undo_queue u2" "redo_queue ?u3 = []"
    "text_buffer ?u3 = fst (buffer_insert (text_buffer u) pos tx)"
    using f(5,11) u1(3) by (simp_all add: wp_undo_end_group_def set_buffer_def Let_def)
  ultimately show ?thesis
    using t q u1 e
    by (simp add: remove_image_tags_def)
qed


lemma take_append_take: "take n (xs @ take n ys) = take n (xs @ ys)"
  by (simp add: min_def)

lemma transactions_sealed:
  assumes "sealed m u" "1 \<le> m" "\<forall>p \<in> set ts. 2 \<le> length (snd p)"
  shows "\<exists>u'. run (map (\<lambda>p. insert_transaction (fst p) (snd p)) ts) u = Inr u' \<and> sealed m u' \<and>
     map (map op_text) (undo_queue u') =
       take (nat m) (rev (map (\<lambda>p. [Some (remove_image_chars (snd p))]) ts) @
                     map (map op_text) (undo_queue u))"
  using assms
proof (induction ts arbitrary: u)
  case Nil
  then show ?case by (simp add: sealed_def)
next
  case (Cons p ts)
  from Cons.prems have "2 \<le> length (snd p)" by simp
  from insert_transaction_sealed [OF Cons.prems(1) this Cons.prems(2), of "fst p"]
  obtain u1 where a: "insert_transaction (fst p) (snd p) u = Inr u1" "sealed m u1"
    "map (map op_text) (undo_queue u1) =
       take (nat m) ([Some (remove_image_chars (snd p))] # map (map op_text) (undo_queue u))"
    by blast
  from Cons.prems have "\<forall>p \<in> set ts. 2 \<le> length (snd p)" by simp
  from Cons.IH [OF a(2) Cons.prems(2) this] obtain u' where
    b: "run (map (\<lambda>p. insert_transaction (fst p) (snd p)) ts) u1 = Inr u'" "sealed m u'"
    "map (map op_text) (undo_queue u') =
       take (nat m) (rev (map (\<lambda>p. [Some (remove_image_chars (snd p))]) ts) @
                     map (map op_text) (undo_queue u1))"
    by blast
  from b(3) have "map (map op_text) (undo_queue u') =
       take (nat m) (rev (map (\<lambda>p. [Some (remove_image_chars (snd p))]) (p # ts)) @
                     map (map op_text) (undo_queue u))"
    unfolding a(3) take_append_take by simp
  with a(1) b(1,2) show ?case by simp
qed

lemma set_undo_levels_fresh:
  assumes "5 \<le> m" "plain b"
  shows "\<exists>u. set_undo_levels m (wp_undo_new b) = Inr u \<and> sealed m u \<and> undo_queue u = [] \<and>
           redo_queue u = [] \<and> text_buffer u = b"
  using assms
  by (simp add: set_undo_levels_def wp_undo_set_undo_levels_def wp_undo_new_def DEF_UNDO_LEVEL_def
      sealed_def wp_undo_send_signals_def Let_def)

lemma undo_single:
  assumes "\<not> low_mem u" "single_inserts (undo_queue u)" "plain (text_buffer u)"
    "current_op u = NULL \<or> current_op u = UndoHead" "undo_queue u = g # rest"
  shows "\<exists>u'. wp_undo_undo u = Inr u' \<and> undo_queue u' = rest \<and> \<not> low_mem u' \<and>
           plain (text_buffer u') \<and> current_op u' = NULL \<and>
           contents (text_buffer u') =
             contents (buffer_delete (text_buffer u)
                         (get_iter_at_offset (text_buffer u) (op_start (hd g)))
                         (get_iter_at_offset (text_buffer u) (op_end (hd g)))) \<and>
           (redo_queue u' = g # redo_queue u \<or>
            redo_queue u' = [(hd g)\<lparr>mergeable := False\<rparr>] # redo_queue u)"
proof -
  from assms(2,5) obtain x where x: "g = [x]" "op_type x = WP_UNDO_INSERT" by auto
  from assms(4) show ?thesis
  proof
    assume "current_op u = NULL"
    with assms(1,3,5) x show ?thesis
      by (simp add: wp_undo_undo_def Let_def undo_operation_def wp_undo_freeze_def wp_undo_thaw_def
          place_proposed_cursor_def set_buffer_def wp_undo_reset_mergeable_def
          send_signals_queue plain_delete)
  next
    assume "current_op u = UndoHead"
    with assms(1,3,5) x show ?thesis
      by (simp add: wp_undo_undo_def Let_def undo_operation_def wp_undo_freeze_def wp_undo_thaw_def
          place_proposed_cursor_def set_buffer_def wp_undo_reset_mergeable_def deref_current_def
          store_current_def send_signals_queue plain_delete)
  qed
qed


lemma undo_all:
  assumes "\<not> low_mem u" "single_inserts (undo_queue u)" "plain (text_buffer u)"
    "current_op u = NULL \<or> current_op u = UndoHead" "k \<le> length (undo_queue u)"
  shows "\<exists>u'. run (replicate k wp_undo_undo) u = Inr u' \<and> undo_queue u' = drop k (undo_queue u) \<and>
           \<not> low_mem u'"
  using assms
proof (induction k arbitrary: u)
  case 0
  then show ?case by simp
next
  case (Suc k)
  then obtain g rest where q: "undo_queue u = g # rest" by (cases "undo_queue u") auto
  from undo_single [OF Suc.prems(1-4) q] obtain u1 where
    a: "wp_undo_undo u = Inr u1" "undo_queue u1 = rest" "\<not> low_mem u1" "plain (text_buffer u1)"
    "current_op u1 = NULL" by blast
  from Suc.prems(2,5) q a(2) have "single_inserts (undo_queue u1)" "k \<le> length (undo_queue u1)"
    by simp_all
  from Suc.IH [OF a(3) this(1) a(4) _ this(2)] a(5) obtain u' where
    "run (replicate k wp_undo_undo) u1 = Inr u'" "undo_queue u' = drop k (undo_queue u1)"
    "\<not> low_mem u'" by auto
  with a(1,2) q show ?case by simp
qed


definition ten_insertions :: "(nat \<times> utf8) list" where
  "ten_insertions =
     [(0, ascii ''ab''), (2, ascii ''cd''), (4, ascii ''ef''), (6, ascii ''gh''), (8, ascii ''ij''),
      (10, ascii ''kl''), (12, ascii ''mn''), (14, ascii ''op''), (16, ascii ''qr''),
      (18, ascii ''st'')]"


section \<open>Undo followed by redo (C1)\<close>

text \<open>
  The undo queue fits the buffer: the group at the head is one insertion whose text
  stands in the buffer at the recorded range, without tags, and with that text taken out
  the rest of the queue fits what remains.
\<close>

fun restorable :: "(gunichar \<times> GtkTextTag list) list \<Rightarrow> WPUndoOperation list list \<Rightarrow> bool" where
  "restorable c [] = True"
| "restorable c ([] # q) = False"
| "restorable c ([x] # q) =
     (case op_text x of
        None \<Rightarrow> False
      | Some tx \<Rightarrow>
          op_type x = WP_UNDO_INSERT \<and> op_tags x = [] \<and> 0 \<le> op_start x \<and>
          op_end x = op_start x + int (length tx) \<and> nat (op_end x) \<le> length c \<and>
          take (length tx) (drop (nat (op_start x)) c) = map (\<lambda>ch. (ch, [])) tx \<and>
          restorable (take (nat (op_start x)) c @ drop (nat (op_end x)) c) q)"
| "restorable c ((x # y # g) # q) = False"

text \<open>
  The redo queue leads from the buffer to the contents \<open>t\<close>: inserting the text of each
  group in turn, at its recorded offset, gives \<open>t\<close>.
\<close>

fun replayable ::
  "(gunichar \<times> GtkTextTag list) list \<Rightarrow> WPUndoOperation list list \<Rightarrow>
   (gunichar \<times> GtkTextTag list) list \<Rightarrow> bool" where
  "replayable c [] t = (c = t)"
| "replayable c ([] # r) t = False"
| "replayable c ([x] # r) t =
     (case op_text x of
        None \<Rightarrow> False
      | Some tx \<Rightarrow>
          op_type x = WP_UNDO_INSERT \<and> op_tags x = [] \<and> 0 \<le> op_start x \<and>
          nat (op_start x) \<le> length c \<and>
          replayable (take (nat (op_start x)) c @ map (\<lambda>ch. (ch, [])) tx @ drop (nat (op_start x)) c) r t)"
| "replayable c ((x # y # g) # r) t = False"

text \<open>
  A list of insertions that the host can make one after the other into a buffer of \<open>n\<close>
  characters: each offset lies inside the buffer as it then is, each text is not empty
  and has no object replacement character.
\<close>

fun valid_insertions :: "nat \<Rightarrow> (nat \<times> utf8) list \<Rightarrow> bool" where
  "valid_insertions n [] = True"
| "valid_insertions n (p # ts) =
     (fst p \<le> n \<and> snd p \<noteq> [] \<and> 65532 \<notin> set (snd p) \<and>
      valid_insertions (n + length (snd p)) ts)"

text \<open>
  The host changes a tag on a range: the engine records the change (\<^verbatim>\<open>_apply_tag\<close> in
  \<^verbatim>\<open>wptextbuffer.c\<close> calls \<^verbatim>\<open>wp_undo_apply_tag\<close> first), then the buffer applies it.
\<close>

definition host_apply_tag :: "nat \<Rightarrow> nat \<Rightarrow> GtkTextTag \<Rightarrow> WPUndo \<Rightarrow> error + WPUndo" where
  "host_apply_tag s e tg u =
     (case wp_undo_apply_tag True u s e (Some tg) True of
        Inl err \<Rightarrow> Inl err
      | Inr u1 \<Rightarrow> Inr (set_buffer u1 (buffer_apply_tag (text_buffer u1) tg s e)))"

definition buffer_contents :: "error + WPUndo \<Rightarrow> error + (gunichar \<times> GtkTextTag list) list" where
  "buffer_contents r = (case r of Inl e \<Rightarrow> Inl e | Inr u \<Rightarrow> Inr (contents (text_buffer u)))"

text \<open>
  Three transactions: "a" is typed at 0, "b" is typed at 1 and given tag 1, "c" is typed
  at 2. The three insertions merge into one operation.
\<close>

definition typed_abc :: "(WPUndo \<Rightarrow> error + WPUndo) list" where
  "typed_abc =
     [begin_transaction, host_insert_text 0 (ascii ''a''), end_transaction,
      begin_transaction, host_insert_text 1 (ascii ''b''), host_apply_tag 1 2 1, end_transaction,
      begin_transaction, host_insert_text 2 (ascii ''c''), end_transaction]"

lemma restorable_unmerged: "unmerged q q' \<Longrightarrow> restorable c q' = restorable c q"
  by (auto simp: unmerged_def split: option.splits)

lemma restorable_take: "restorable c q \<Longrightarrow> restorable c (take n q)"
proof (induction c q arbitrary: n rule: restorable.induct)
  case (3 c x q)
  then show ?case by (cases n) (auto split: option.splits)
qed simp_all

lemma replayable_unmerge [simp]:
  "replayable c ([x\<lparr>mergeable := False\<rparr>] # r) t = replayable c ([x] # r) t"
  by (simp split: option.splits)

lemma remove_image_chars_id: "65532 \<notin> set tx \<Longrightarrow> remove_image_chars tx = tx"
  by (induction tx) (auto simp: remove_image_chars_def)

lemma plain_insert_contents:
  assumes "plain b" "pos \<le> length (contents b)"
  shows "contents (fst (buffer_insert b pos tx)) =
           take pos (contents b) @ map (\<lambda>ch. (ch, [])) tx @ drop pos (contents b)"
  using assms by (simp add: buffer_insert_def Let_def get_char_count_def min_def)

text \<open>
  The first operation of a transaction goes through \<^verbatim>\<open>wp_undo_add_queue\<close>; then the host
  inserts the text and ends the transaction.
\<close>

lemma queued_insert:
  assumes w: "first_in_group w" "\<not> disable_this_group w"
      "current_op w = (if undo_queue w = [] then NULL else UndoHead)"
      "single_inserts (undo_queue w)" "undo_queue_len w = int (length (undo_queue w))"
      "1 \<le> max_undo_level w"
    and e: "undo_disabled w = 0" "\<not> low_mem w" "group w = 1" "plain (text_buffer w)"
    and x: "op_type x = WP_UNDO_INSERT" "op_text x = Some tx" "op_tags x = []"
      "op_start x = int pos" "op_end x = int pos + int (length tx)"
    and t: "65532 \<notin> set tx" "pos \<le> length (contents (text_buffer w))"
      "restorable (contents (text_buffer w)) (undo_queue w)"
  shows "\<exists>u2. wp_undo_add_queue w x = Inr u2 \<and>
     sealed (max_undo_level w)
       (wp_undo_end_group (set_buffer u2 (fst (buffer_insert (text_buffer u2) pos tx)))) \<and>
     redo_queue u2 = [] \<and> text_buffer u2 = text_buffer w \<and>
     restorable (contents (fst (buffer_insert (text_buffer w) pos tx))) (undo_queue u2)"
proof -
  let ?m = "max_undo_level w"
  let ?x = "x\<lparr>op_text := remove_image_tags (op_text x)\<rparr>"
  let ?c = "contents (text_buffer w)"
  let ?c' = "take pos ?c @ map (\<lambda>ch. (ch, [])) tx @ drop pos ?c"
  from add_queue_first [OF w x(1)] obtain u2 q' where
    a: "wp_undo_add_queue w x = Inr u2" and
    f: "single_inserts (undo_queue u2)" "undo_queue_len u2 = int (length (undo_queue u2))"
      "current_op u2 = UndoHead" "undo_queue u2 \<noteq> []" "redo_queue u2 = []"
      "undo_disabled u2 = undo_disabled w" "low_mem u2 = low_mem w" "group u2 = group w"
      "\<not> disable_this_group u2" "max_undo_level u2 = ?m" "text_buffer u2 = text_buffer w"
    and q: "undo_queue u2 = take (nat ?m) ([?x] # q')" "unmerged (undo_queue w) q'"
    by blast
  from q(1) have l: "length (undo_queue u2) \<le> nat ?m" by simp
  have s: "sealed ?m (wp_undo_end_group (set_buffer u2 (fst (buffer_insert (text_buffer u2) pos tx))))"
    using f e l plain_insert [of "text_buffer w" pos tx]
    by (simp add: sealed_def wp_undo_end_group_def set_buffer_def Let_def)
  have xx: "op_type ?x = WP_UNDO_INSERT" "op_text ?x = Some tx" "op_tags ?x = []"
    "op_start ?x = int pos" "op_end ?x = int pos + int (length tx)"
    using x t(1) by (simp_all add: remove_image_tags_def remove_image_chars_id)
  from t(2) have "take (length tx) (drop pos ?c') = map (\<lambda>ch. (ch, [])) tx"
    "take pos ?c' @ drop (pos + length tx) ?c' = ?c" "pos + length tx \<le> length ?c'"
    by (simp_all add: min_def)
  moreover from t(3) q(2) have "restorable ?c q'" by (simp add: restorable_unmerged)
  ultimately have "restorable ?c' ([?x] # q')"
    using xx by (simp add: nat_add_distrib)
  then have "restorable ?c' (take (nat ?m) ([?x] # q'))" by (rule restorable_take)
  with plain_insert_contents [OF e(4) t(2), of tx] q(1)
  have "restorable (contents (fst (buffer_insert (text_buffer w) pos tx))) (undo_queue u2)"
    by simp
  with a s f(5,11) show ?thesis by blast
qed

lemma merged_restorable:
  assumes "restorable c ([la] # r)" "op_end la = int pos"
  shows "restorable (take pos c @ [(ch, [])] @ drop pos c)
           ([la\<lparr>op_text := g_strconcat (op_text la) (Some [ch]),
                op_tags := update_tags_range (op_tags la) (op_start la) (op_end la),
                op_end := int pos + 1\<rparr>] # r)"
proof -
  from assms(1) obtain t where la: "op_text la = Some t" "op_type la = WP_UNDO_INSERT"
    "op_tags la = []" "0 \<le> op_start la" "op_end la = op_start la + int (length t)"
    "nat (op_end la) \<le> length c"
    "take (length t) (drop (nat (op_start la)) c) = map (\<lambda>ch. (ch, [])) t"
    "restorable (take (nat (op_start la)) c @ drop (nat (op_end la)) c) r"
    by (auto split: option.splits)
  let ?s = "nat (op_start la)"
  define A where "A = take ?s c"
  define B where "B = drop (?s + length t) c"
  from la(4,5) have n2: "nat (op_end la) = ?s + length t"
    by (simp add: nat_add_distrib)
  from la(4,5) assms(2) have p: "pos = ?s + length t" by linarith
  from la(6) n2 have le: "?s + length t \<le> length c" by simp
  have "take ?s c @ take (length t) (drop ?s c) @ drop (?s + length t) c = c"
    by (metis append_take_drop_id drop_drop add.commute)
  with la(7) have c: "c = A @ map (\<lambda>ch. (ch, [])) t @ B"
    by (simp add: A_def B_def)
  from le have lA: "length A = ?s" by (simp add: A_def)
  have "nat (int pos + 1) = pos + 1" by linarith
  with p n2 have n: "nat (int pos + 1) = ?s + length t + 1" "nat (op_end la) = ?s + length t"
    by (simp_all only:)
  from la(8) have r: "restorable (A @ B) r"
    by (simp add: A_def B_def n)
  have "take pos c @ [(ch, [])] @ drop pos c = A @ map (\<lambda>ch. (ch, [])) (t @ [ch]) @ B"
    unfolding p by (subst (1 2) c) (simp add: lA)
  moreover have "restorable (A @ map (\<lambda>ch. (ch, [])) (t @ [ch]) @ B)
           ([la\<lparr>op_text := g_strconcat (op_text la) (Some [ch]),
                op_tags := update_tags_range (op_tags la) (op_start la) (op_end la),
                op_end := int pos + 1\<rparr>] # r)"
    using la(1-5) r lA p n
    by (simp add: g_strconcat_def update_tags_range_def)
  ultimately show ?thesis by simp
qed

lemma insert_transaction_any:
  assumes "sealed m u" "1 \<le> m" "tx \<noteq> []" "65532 \<notin> set tx"
    "pos \<le> length (contents (text_buffer u))"
    "restorable (contents (text_buffer u)) (undo_queue u)" "redo_queue u = []"
  shows "\<exists>u'. insert_transaction pos tx u = Inr u' \<and> sealed m u' \<and> redo_queue u' = [] \<and>
           restorable (contents (text_buffer u')) (undo_queue u') \<and>
           length (contents (text_buffer u')) = length (contents (text_buffer u)) + length tx"
proof -
  let ?st = "wp_undo_start_group u"
  let ?co = "insert_text_co pos tx"
  let ?sp = "mergeable ?co \<and> g_unichar_isspace (g_utf8_get_char tx)"
  let ?x = "?co\<lparr>op_type := WP_UNDO_INSERT, op_text := Some tx\<rparr>"
  let ?c = "contents (text_buffer u)"
  let ?b' = "fst (buffer_insert (text_buffer u) pos tx)"
  from assms(1) have s: "undo_disabled u = 0" "\<not> low_mem u" "group u = 0" "\<not> disable_this_group u"
    "max_undo_level u = m" "undo_queue_len u = int (length (undo_queue u))"
    "length (undo_queue u) \<le> nat m"
    "current_op u = (if undo_queue u = [] then NULL else UndoHead)"
    "single_inserts (undo_queue u)" "plain (text_buffer u)"
    by (simp_all add: sealed_def)
  have st: "first_in_group ?st" "\<not> disable_this_group ?st" "current_op ?st = current_op u"
    "undo_queue ?st = undo_queue u" "undo_queue_len ?st = undo_queue_len u"
    "max_undo_level ?st = m" "undo_disabled ?st = 0" "\<not> low_mem ?st" "group ?st = 1"
    "text_buffer ?st = text_buffer u" "redo_queue ?st = redo_queue u"
    using s by (simp_all add: wp_undo_start_group_def Let_def)
  have x: "op_type ?x = WP_UNDO_INSERT" "op_text ?x = Some tx" "op_tags ?x = []"
    "op_start ?x = int pos" "op_end ?x = int pos + int (length tx)"
    by (simp_all add: insert_text_co_def Let_def g_utf8_strlen_def)
  have it: "insert_transaction pos tx u =
      (case record_insert pos tx ?st of
         Inl e \<Rightarrow> Inl e
       | Inr u1 \<Rightarrow> Inr (wp_undo_end_group (set_buffer u1 (fst (buffer_insert (text_buffer u1) pos tx)))))"
    by (simp add: insert_transaction_def begin_transaction_def end_transaction_def
        host_insert_text_def split: sum.splits)
  have len: "length (contents ?b') = length ?c + length tx"
    using plain_insert_contents [OF s(10) assms(5), of tx] assms(5) by simp
  have queued: "\<exists>u'. insert_transaction pos tx u = Inr u' \<and> sealed m u' \<and> redo_queue u' = [] \<and>
           restorable (contents (text_buffer u')) (undo_queue u') \<and>
           length (contents (text_buffer u')) = length ?c + length tx"
    if w: "record_insert pos tx ?st = wp_undo_add_queue w ?x"
      "first_in_group w" "\<not> disable_this_group w"
      "current_op w = (if undo_queue w = [] then NULL else UndoHead)"
      "single_inserts (undo_queue w)" "undo_queue_len w = int (length (undo_queue w))"
      "max_undo_level w = m" "undo_disabled w = 0" "\<not> low_mem w" "group w = 1"
      "text_buffer w = text_buffer u" "restorable ?c (undo_queue w)"
    for w
  proof -
    from assms(2) w(7) have m: "1 \<le> max_undo_level w" by simp
    from s(10) w(11) have p: "plain (text_buffer w)" by simp
    from assms(5) w(11) have q: "pos \<le> length (contents (text_buffer w))" by simp
    from w(12,11) have r: "restorable (contents (text_buffer w)) (undo_queue w)" by simp
    from queued_insert [OF w(2-6) m w(8-10) p x assms(4) q r] obtain u2 where
      a: "wp_undo_add_queue w ?x = Inr u2"
      "sealed (max_undo_level w)
         (wp_undo_end_group (set_buffer u2 (fst (buffer_insert (text_buffer u2) pos tx))))"
      "redo_queue u2 = []" "text_buffer u2 = text_buffer w"
      "restorable (contents (fst (buffer_insert (text_buffer w) pos tx))) (undo_queue u2)"
      by blast
    let ?e = "wp_undo_end_group (set_buffer u2 (fst (buffer_insert (text_buffer u2) pos tx)))"
    have e: "undo_queue ?e = undo_queue u2" "redo_queue ?e = []" "text_buffer ?e = ?b'"
      using a(3,4) w(11) by (simp_all add: wp_undo_end_group_def set_buffer_def Let_def)
    from it w(1) a(1) have "insert_transaction pos tx u = Inr ?e" by simp
    moreover from a(2) w(7) have "sealed m ?e" by simp
    moreover from a(5) e w(11) have "restorable (contents (text_buffer ?e)) (undo_queue ?e)" by simp
    ultimately show ?thesis using e len by (intro exI [of _ ?e]) simp
  qed
  show ?thesis
  proof (cases "undo_queue u")
    case Nil
    with s(8) have cur: "current_op u = NULL" by simp
    let ?w = "?st\<lparr>last_char_is_space := ?sp\<rparr>"
    have "record_insert pos tx ?st = wp_undo_add_queue ?w ?x"
      using st(3,7,8) cur
      by (simp add: record_insert_def wp_undo_insert_text_def insert_text_new_def Let_def)
    from queued [OF this] st s assms(6) len show ?thesis by simp
  next
    case (Cons g r)
    with s(9) obtain la where g: "g = [la]" "op_type la = WP_UNDO_INSERT" by auto
    from Cons s(8) have cur: "current_op u = UndoHead" by simp
    from Cons g have q: "undo_queue u = [la] # r" by simp
    show ?thesis
    proof (cases "mergeable ?co \<and> mergeable la")
      case False
      let ?w = "?st\<lparr>last_char_is_space := ?sp\<rparr>"
      have "record_insert pos tx ?st = wp_undo_add_queue ?w ?x"
        using st(3,4,7,8) cur q g(2) False
        by (auto simp: record_insert_def wp_undo_insert_text_def insert_text_new_def Let_def
            deref_current_def)
      from queued [OF this] st s assms(6) len show ?thesis by simp
    next
      case True
      then have one: "length tx = 1"
        using assms(3) by (cases tx) (auto simp: insert_text_co_def Let_def g_utf8_strlen_def)
      then obtain ch where ch: "tx = [ch]" by (cases tx) auto
      show ?thesis
      proof (cases "op_end la = int pos \<and> (?sp \<or> \<not> last_char_is_space u)")
        case False
        let ?w = "?st\<lparr>undo_queue := [la\<lparr>mergeable := False\<rparr>] # r, last_char_is_space := ?sp\<rparr>"
        have "record_insert pos tx ?st = wp_undo_add_queue ?w ?x"
          using st(3,4,7,8) cur q g(2) True False
          by (auto simp: record_insert_def wp_undo_insert_text_def insert_text_new_def Let_def
              deref_current_def store_current_def wp_undo_start_group_def insert_text_co_def)
        moreover have "unmerged (undo_queue u) ([la\<lparr>mergeable := False\<rparr>] # r)"
          using q by (simp add: unmerged_def)
        from restorable_unmerged [OF this, of ?c] assms(6)
        have "restorable ?c (undo_queue ?w)"
          by (simp del: restorable.simps)
        ultimately show ?thesis
          using queued [of ?w] st s q g cur by simp
      next
        case m: True
        let ?la = "la\<lparr>op_text := g_strconcat (op_text la) (Some tx),
              op_tags := update_tags_range (op_tags la) (op_start la) (op_end la),
              op_end := int pos + 1\<rparr>"
        let ?w = "?st\<lparr>undo_queue := [?la] # r, last_char_is_space := ?sp\<rparr>"
        let ?e = "wp_undo_end_group (set_buffer ?w (fst (buffer_insert (text_buffer ?w) pos tx)))"
        have "record_insert pos tx ?st = Inr ?w"
          using st(3,4,7,8) cur q g(2) True m one
          by (auto simp: record_insert_def wp_undo_insert_text_def insert_text_new_def Let_def
              deref_current_def store_current_def wp_undo_start_group_def insert_text_co_def
              g_utf8_strlen_def wp_undo_send_signals_def)
        with it have a: "insert_transaction pos tx u = Inr ?e" by simp
        have e: "undo_queue ?e = [?la] # r" "redo_queue ?e = []" "text_buffer ?e = ?b'"
          using s assms(7) by (simp_all add: wp_undo_end_group_def set_buffer_def wp_undo_start_group_def Let_def)
        have "sealed m ?e"
          using s q g(2) plain_insert [OF s(10), of pos tx]
          by (simp add: sealed_def wp_undo_end_group_def set_buffer_def wp_undo_start_group_def Let_def)
        moreover from assms(6) q have "restorable ?c ([la] # r)" by simp
        from merged_restorable [OF this, of pos ch] m ch
          plain_insert_contents [OF s(10) assms(5), of tx]
        have "restorable (contents ?b') ([?la] # r)" by simp
        ultimately show ?thesis using a e len by (intro exI [of _ ?e]) simp
      qed
    qed
  qed
qed

lemma undo_restorable:
  assumes "\<not> low_mem u" "plain (text_buffer u)" "current_op u = NULL \<or> current_op u = UndoHead"
    "undo_queue u = g # q" "single_inserts (undo_queue u)"
    "restorable (contents (text_buffer u)) (undo_queue u)"
    "replayable (contents (text_buffer u)) (redo_queue u) t"
  shows "\<exists>u'. wp_undo_undo u = Inr u' \<and> undo_queue u' = q \<and> \<not> low_mem u' \<and>
           plain (text_buffer u') \<and> current_op u' = NULL \<and>
           restorable (contents (text_buffer u')) (undo_queue u') \<and>
           replayable (contents (text_buffer u')) (redo_queue u') t \<and>
           length (redo_queue u') = Suc (length (redo_queue u))"
proof -
  let ?c = "contents (text_buffer u)"
  from assms(4,5) obtain x where g: "g = [x]" by auto
  with assms(4,6) obtain tx where x: "op_text x = Some tx" "op_type x = WP_UNDO_INSERT"
    "op_tags x = []" "0 \<le> op_start x" "op_end x = op_start x + int (length tx)"
    "nat (op_end x) \<le> length ?c"
    "take (length tx) (drop (nat (op_start x)) ?c) = map (\<lambda>ch. (ch, [])) tx"
    "restorable (take (nat (op_start x)) ?c @ drop (nat (op_end x)) ?c) q"
    by (auto split: option.splits)
  from undo_single [OF assms(1,5,2,3,4)] g obtain u' where
    a: "wp_undo_undo u = Inr u'" "undo_queue u' = q" "\<not> low_mem u'" "plain (text_buffer u')"
    "current_op u' = NULL"
    and c: "contents (text_buffer u') =
      contents (buffer_delete (text_buffer u) (get_iter_at_offset (text_buffer u) (op_start x))
                  (get_iter_at_offset (text_buffer u) (op_end x)))"
    and r: "redo_queue u' = [x] # redo_queue u \<or>
            redo_queue u' = [x\<lparr>mergeable := False\<rparr>] # redo_queue u"
    by auto
  let ?s = "nat (op_start x)"
  from x(4,5,6) have le: "?s \<le> length ?c" "?s + length tx \<le> length ?c"
    "nat (op_end x) = ?s + length tx"
    by (simp_all add: nat_add_distrib)
  from x(4) le have i: "get_iter_at_offset (text_buffer u) (op_start x) = ?s"
    "get_iter_at_offset (text_buffer u) (op_end x) = ?s + length tx"
    by (simp_all add: get_iter_at_offset_def get_char_count_def x(5) nat_add_distrib) linarith+
  from le(2) have "contents (buffer_delete (text_buffer u) ?s (?s + length tx)) =
      take ?s ?c @ drop (?s + length tx) ?c"
    by (simp add: buffer_delete_def get_char_count_def Let_def min_def max_def)
  with c i have c': "contents (text_buffer u') = take ?s ?c @ drop (?s + length tx) ?c"
    by simp
  have "take ?s ?c @ take (length tx) (drop ?s ?c) @ drop (?s + length tx) ?c = ?c"
    by (metis append_take_drop_id drop_drop add.commute)
  with x(7) le have whole:
    "take ?s (take ?s ?c @ drop (?s + length tx) ?c) @ map (\<lambda>ch. (ch, [])) tx @
     drop ?s (take ?s ?c @ drop (?s + length tx) ?c) = ?c"
    by (simp add: min_def)
  have "replayable (take ?s ?c @ drop (?s + length tx) ?c) ([x] # redo_queue u) t"
  proof -
    have "?s \<le> length (take ?s ?c @ drop (?s + length tx) ?c)"
      using le by simp
    moreover have "replayable
       (take ?s (take ?s ?c @ drop (?s + length tx) ?c) @ map (\<lambda>ch. (ch, [])) tx @
        drop ?s (take ?s ?c @ drop (?s + length tx) ?c)) (redo_queue u) t"
      unfolding whole by (rule assms(7))
    ultimately show ?thesis
      using x(1-4) by (simp del: length_append take_append drop_append)
  qed
  with r c' have "replayable (contents (text_buffer u')) (redo_queue u') t"
    by (auto simp: replayable_unmerge simp del: replayable.simps)
  moreover from x(8) le(3) c' a(2) have "restorable (contents (text_buffer u')) (undo_queue u')"
    by simp
  moreover from r have "length (redo_queue u') = Suc (length (redo_queue u))" by auto
  ultimately show ?thesis using a by blast
qed

lemma redo_single:
  assumes "\<not> low_mem u" "plain (text_buffer u)" "redo_queue u = [x] # r"
    "op_type x = WP_UNDO_INSERT" "op_text x = Some tx" "op_tags x = []"
  shows "\<exists>u'. wp_undo_redo u = Inr u' \<and> redo_queue u' = r \<and> \<not> low_mem u' \<and>
           plain (text_buffer u') \<and>
           contents (text_buffer u') =
             contents (fst (buffer_insert (text_buffer u)
                              (get_iter_at_offset (text_buffer u) (op_start x)) tx))"
  using assms plain_insert [of "text_buffer u" "get_iter_at_offset (text_buffer u) (op_start x)" tx]
  by (simp add: wp_undo_redo_def Let_def redo_operation_def wp_undo_freeze_def wp_undo_thaw_def
      place_proposed_cursor_def set_buffer_def wp_undo_reset_mergeable_def
      wp_undo_apply_saved_tags_def send_signals_redo case_prod_unfold)


lemma run_append:
  "run (fs @ gs) u = (case run fs u of Inl e \<Rightarrow> Inl e | Inr u' \<Rightarrow> run gs u')"
  by (induction fs arbitrary: u) (auto split: sum.splits)

lemma undo_n:
  assumes "\<not> low_mem u" "plain (text_buffer u)" "current_op u = NULL \<or> current_op u = UndoHead"
    "single_inserts (undo_queue u)" "restorable (contents (text_buffer u)) (undo_queue u)"
    "replayable (contents (text_buffer u)) (redo_queue u) t"
  shows "\<exists>u'. run (replicate n wp_undo_undo) u = Inr u' \<and> \<not> low_mem u' \<and> plain (text_buffer u') \<and>
           replayable (contents (text_buffer u')) (redo_queue u') t \<and>
           length (redo_queue u') \<le> length (redo_queue u) + n"
  using assms
proof (induction n arbitrary: u)
  case 0
  then show ?case by simp
next
  case (Suc n)
  show ?case
  proof (cases "undo_queue u")
    case Nil
    then have "wp_undo_undo u = Inr u" by (simp add: wp_undo_undo_def)
    with Suc.IH [OF Suc.prems] show ?thesis by auto
  next
    case (Cons g q)
    from undo_restorable [OF Suc.prems(1-3) Cons Suc.prems(4-6)] obtain u1 where
      a: "wp_undo_undo u = Inr u1" "undo_queue u1 = q" "\<not> low_mem u1" "plain (text_buffer u1)"
      "current_op u1 = NULL" "restorable (contents (text_buffer u1)) (undo_queue u1)"
      "replayable (contents (text_buffer u1)) (redo_queue u1) t"
      "length (redo_queue u1) = Suc (length (redo_queue u))"
      by blast
    from Suc.prems(4) Cons a(2) have "single_inserts (undo_queue u1)" by simp
    from Suc.IH [OF a(3,4) _ this a(6,7)] a(5) obtain u' where
      "run (replicate n wp_undo_undo) u1 = Inr u'" "\<not> low_mem u'" "plain (text_buffer u')"
      "replayable (contents (text_buffer u')) (redo_queue u') t"
      "length (redo_queue u') \<le> length (redo_queue u1) + n"
      by auto
    with a(1,8) show ?thesis by simp
  qed
qed

lemma redo_n:
  assumes "\<not> low_mem u" "plain (text_buffer u)"
    "replayable (contents (text_buffer u)) (redo_queue u) t" "length (redo_queue u) \<le> n"
  shows "\<exists>u'. run (replicate n wp_undo_redo) u = Inr u' \<and> contents (text_buffer u') = t"
  using assms
proof (induction n arbitrary: u)
  case 0
  then show ?case by simp
next
  case (Suc n)
  show ?case
  proof (cases "redo_queue u")
    case Nil
    then have "wp_undo_redo u = Inr u" by (simp add: wp_undo_redo_def)
    moreover from Nil have "length (redo_queue u) \<le> n" by simp
    ultimately show ?thesis using Suc.IH [OF Suc.prems(1-3)] by auto
  next
    case (Cons g r)
    let ?c = "contents (text_buffer u)"
    from Suc.prems(3) Cons obtain x tx where g: "g = [x]" and
      x: "op_text x = Some tx" "op_type x = WP_UNDO_INSERT" "op_tags x = []" "0 \<le> op_start x"
      "nat (op_start x) \<le> length ?c"
      "replayable (take (nat (op_start x)) ?c @ map (\<lambda>ch. (ch, [])) tx @ drop (nat (op_start x)) ?c) r t"
      by (cases "(?c, g # r, t)" rule: replayable.cases) (auto split: option.splits)
    from Cons g have q: "redo_queue u = [x] # r" by simp
    from redo_single [OF Suc.prems(1,2) q x(2,1,3)] obtain u1 where
      a: "wp_undo_redo u = Inr u1" "redo_queue u1 = r" "\<not> low_mem u1" "plain (text_buffer u1)"
      "contents (text_buffer u1) =
         contents (fst (buffer_insert (text_buffer u)
                          (get_iter_at_offset (text_buffer u) (op_start x)) tx))"
      by blast
    from x(4,5) have "get_iter_at_offset (text_buffer u) (op_start x) = nat (op_start x)"
      by (simp add: get_iter_at_offset_def get_char_count_def) linarith
    with a(5) plain_insert_contents [OF Suc.prems(2) x(5), of tx] x(6)
    have "replayable (contents (text_buffer u1)) (redo_queue u1) t"
      by (simp add: a(2))
    moreover from Suc.prems(4) Cons a(2) have "length (redo_queue u1) \<le> n" by simp
    ultimately show ?thesis using Suc.IH [OF a(3,4)] a(1) by auto
  qed
qed

lemma transactions_restorable:
  assumes "sealed m u" "1 \<le> m" "valid_insertions (length (contents (text_buffer u))) ts"
    "restorable (contents (text_buffer u)) (undo_queue u)" "redo_queue u = []"
  shows "\<exists>u'. run (map (\<lambda>p. insert_transaction (fst p) (snd p)) ts) u = Inr u' \<and> sealed m u' \<and>
           redo_queue u' = [] \<and> restorable (contents (text_buffer u')) (undo_queue u')"
  using assms
proof (induction ts arbitrary: u)
  case Nil
  then show ?case by simp
next
  case (Cons p ts)
  from Cons.prems(3) have v: "fst p \<le> length (contents (text_buffer u))" "snd p \<noteq> []"
    "65532 \<notin> set (snd p)"
    "valid_insertions (length (contents (text_buffer u)) + length (snd p)) ts"
    by simp_all
  from insert_transaction_any [OF Cons.prems(1,2) v(2,3,1) Cons.prems(4,5)] obtain u1 where
    a: "insert_transaction (fst p) (snd p) u = Inr u1" "sealed m u1" "redo_queue u1 = []"
    "restorable (contents (text_buffer u1)) (undo_queue u1)"
    "length (contents (text_buffer u1)) = length (contents (text_buffer u)) + length (snd p)"
    by blast
  from v(4) a(5) have "valid_insertions (length (contents (text_buffer u1))) ts" by simp
  from Cons.IH [OF a(2) Cons.prems(2) this a(4,3)] a(1) show ?case by simp
qed





end
